theory Spec2Isabelle
  imports Complex_Main "HOL-Library.Char_ord" "HOL-Library.List_Lexorder" "HOL-Library.Log_Nat"
begin

section \<open>The ARPES loader of \<^verbatim>\<open>ERLAB/data.py\<close>\<close>

text \<open>
  \<^verbatim>\<open>load_ses_spectra(directory_path, file_pattern)\<close> lists the files matching a glob
  pattern, scans each file for the first line containing \<^verbatim>\<open>[Data]\<close>, reads an angle from
  a line a fixed number of lines before it, reads the table after it with pandas, wraps
  the table as an xarray \<^verbatim>\<open>DataArray\<close>, concatenates the arrays along the angle axis and
  attaches a synthesized \<^verbatim>\<open>ky\<close> coordinate.

  The function is modelled as it is written. What it calls outside the repository is
  made explicit:
  \<^item> the file system, Python's \<^verbatim>\<open>float\<close> and pandas' \<^verbatim>\<open>read_csv\<close> are fields of an
    environment record, so every theorem holds whatever they return;
  \<^item> \<^verbatim>\<open>xr.concat(..., dim='angle', join='outer')\<close> and \<^verbatim>\<open>np.linspace\<close> are
    definitions that follow the documented behaviour of the two libraries, the second
    with the rounding of double-precision arithmetic;
  \<^item> \<^verbatim>\<open>print\<close> appends to a list of printed warnings, and a raised exception is the
    \<open>Inl\<close> branch of the result.
\<close>

subsection \<open>Exceptions\<close>

datatype error =
    FileNotFoundError
  | ValueError string
  | IndexError
  | LibraryError string

subsection \<open>Strings and list indexing as Python has them\<close>

text \<open>\<^verbatim>\<open>needle in line\<close> on strings: \<open>needle\<close> occurs as a contiguous run.\<close>

fun str_contains :: "string \<Rightarrow> string \<Rightarrow> bool" where
  "str_contains needle [] = (needle = [])"
| "str_contains needle (c # cs) =
     (take (length needle) (c # cs) = needle \<or> str_contains needle cs)"

text \<open>
  \<^verbatim>\<open>str.strip()\<close> removes leading and trailing whitespace. The whitespace characters
  below code 128 are the ones \<^verbatim>\<open>str.isspace\<close> accepts there.
\<close>

definition is_space :: "char \<Rightarrow> bool" where
  "is_space c =
     (let n = (of_char c :: nat) in (9 \<le> n \<and> n \<le> 13) \<or> (28 \<le> n \<and> n \<le> 32))"

definition strip :: "string \<Rightarrow> string" where
  "strip s = rev (dropWhile is_space (rev (dropWhile is_space s)))"

text \<open>
  \<^verbatim>\<open>xs[k]\<close> on a list: a negative index counts from the end, and an index outside
  \<^verbatim>\<open>-len(xs) .. len(xs) - 1\<close> raises \<^verbatim>\<open>IndexError\<close>.
\<close>

definition py_getitem :: "'x list \<Rightarrow> int \<Rightarrow> error + 'x" where
  "py_getitem xs k =
     (let n = int (length xs); j = (if k < 0 then k + n else k)
      in if 0 \<le> j \<and> j < n then Inr (xs ! nat j) else Inl IndexError)"

subsection \<open>The environment and the tables\<close>

text \<open>
  A \<^verbatim>\<open>DataFrame\<close> returned by \<^verbatim>\<open>read_csv\<close> has at least one column (pandas raises
  \<^verbatim>\<open>EmptyDataError\<close> otherwise), so it is kept as its first column \<^verbatim>\<open>df.iloc[:, 0]\<close>, the
  rows of the remaining columns \<^verbatim>\<open>df.iloc[:, 1:]\<close>, and the number of those columns.
\<close>

record ('e, 'c) dataframe =
  iloc_first :: "'e list"
  iloc_rest :: "'c list list"
  n_rest :: nat

text \<open>
  The environment: \<open>glob\<close> is \<^verbatim>\<open>glob.glob(os.path.join(directory_path, file_pattern))\<close>,
  \<open>readlines\<close> is \<^verbatim>\<open>open(file_path, 'r').readlines()\<close>, \<open>float\<close> is Python's \<^verbatim>\<open>float\<close> on
  a string (\<open>None\<close> when it raises \<^verbatim>\<open>ValueError\<close>), \<open>read_csv\<close> is
  \<^verbatim>\<open>pd.read_csv(file_path, sep='\t', header=None, skiprows=n)\<close>, and \<open>nan\<close> is the value
  xarray fills missing entries with.
\<close>

record ('a, 'e, 'c) env =
  glob :: "string \<Rightarrow> string \<Rightarrow> string list"
  readlines :: "string \<Rightarrow> string list"
  float :: "string \<Rightarrow> 'a option"
  read_csv :: "string \<Rightarrow> nat \<Rightarrow> error + ('e, 'c) dataframe"
  nan :: 'c

text \<open>
  The per-file array after \<^verbatim>\<open>expand_dims('angle')\<close>: one angle, the \<^verbatim>\<open>energy\<close> index
  coordinate, the size of the \<^verbatim>\<open>y_pixel\<close> dimension (which has no coordinate) and the
  values, one row per energy.
\<close>

record ('a, 'e, 'c) data_array =
  angle :: 'a
  da_energy :: "'e list"
  da_y_pixel :: nat
  da_values :: "'c list list"

text \<open>The result of \<^verbatim>\<open>xr.concat\<close>: dimensions \<^verbatim>\<open>angle\<close>, \<^verbatim>\<open>energy\<close>, \<^verbatim>\<open>y_pixel\<close>.\<close>

record ('a, 'e, 'c) combined_data =
  cd_angle :: "'a list"
  cd_energy :: "'e list"
  cd_y_pixel :: nat
  cd_values :: "'c list list list"

text \<open>The returned array: \<^verbatim>\<open>angle\<close> renamed to \<^verbatim>\<open>kx\<close>, and \<^verbatim>\<open>ky\<close> attached to \<^verbatim>\<open>y_pixel\<close>.\<close>

record ('a, 'e, 'c) spectra =
  kx :: "'a list"
  energy :: "'e list"
  y_pixel :: nat
  intensity :: "'c list list list"
  ky :: "rat list"

subsection \<open>Scanning one file\<close>

text \<open>
  \<^verbatim>\<open>float(lines[k].strip())\<close> inside \<^verbatim>\<open>try ... except (ValueError, IndexError)\<close>:
  \<open>None\<close> when either exception is caught.
\<close>

definition try_float :: "(string \<Rightarrow> 'a option) \<Rightarrow> string list \<Rightarrow> int \<Rightarrow> 'a option" where
  "try_float pyfloat lines k =
     (case py_getitem lines k of
        Inl _ \<Rightarrow> None
      | Inr line \<Rightarrow> pyfloat (strip line))"

text \<open>
  The nested \<^verbatim>\<open>try\<close> blocks at the marker line \<open>i\<close>: the line 3 before, and when that
  fails the line 4 before. \<open>None\<close> is the case in which both fail, where the source prints the
  warning and sets \<^verbatim>\<open>angle_value = None\<close>.
\<close>

definition read_angle :: "(string \<Rightarrow> 'a option) \<Rightarrow> string list \<Rightarrow> nat \<Rightarrow> 'a option" where
  "read_angle pyfloat lines i =
     (case try_float pyfloat lines (int i - 3) of
        Some a \<Rightarrow> Some a
      | None \<Rightarrow> try_float pyfloat lines (int i - 4))"

record 'a header =
  data_start_line :: "nat option"
  angle_value :: "'a option"
  warned :: bool

text \<open>
  The loop \<^verbatim>\<open>for i, line in enumerate(lines)\<close>, which stops at the first line containing
  the marker. \<open>lines\<close> is the whole file, \<open>rest\<close> the lines from index \<open>i\<close> on.
\<close>

fun scan_lines ::
  "(string \<Rightarrow> 'a option) \<Rightarrow> string list \<Rightarrow> nat \<Rightarrow> string list \<Rightarrow> 'a header" where
  "scan_lines pyfloat lines i [] =
     \<lparr>data_start_line = None, angle_value = None, warned = False\<rparr>"
| "scan_lines pyfloat lines i (line # rest) =
     (if str_contains ''[Data]'' line then
        \<lparr>data_start_line = Some (i + 1),
         angle_value = read_angle pyfloat lines i,
         warned = (read_angle pyfloat lines i = None)\<rparr>
      else scan_lines pyfloat lines (Suc i) rest)"

definition parse_header :: "(string \<Rightarrow> 'a option) \<Rightarrow> string list \<Rightarrow> 'a header" where
  "parse_header pyfloat lines = scan_lines pyfloat lines 0 lines"

subsection \<open>The loop over the files\<close>

text \<open>
  \<^verbatim>\<open>xr.DataArray(data=df.iloc[:, 1:], ..., coords={energy: df.iloc[:, 0], angle: a})\<close>
  followed by \<^verbatim>\<open>expand_dims('angle')\<close>. The two slices of one frame have the same number of
  rows, so the constructor's check of the coordinate against the data cannot fail.
\<close>

definition mk_data_array :: "('e, 'c) dataframe \<Rightarrow> 'a \<Rightarrow> ('a, 'e, 'c) data_array" where
  "mk_data_array df a =
     \<lparr>angle = a, da_energy = iloc_first df, da_y_pixel = n_rest df, da_values = iloc_rest df\<rparr>"

text \<open>
  The body of \<^verbatim>\<open>for file_path in file_list\<close>. The state is the list \<open>datasets\<close> and the
  printed warnings \<open>out\<close>; an entry \<open>p\<close> of \<open>out\<close> stands for the printed line
  \<^verbatim>\<open>Warning: Could not parse angle in <basename of p>. Skipping.\<close> An exception of
  \<^verbatim>\<open>read_csv\<close> is not caught and ends the loop.
\<close>

fun process_files ::
  "('a, 'e, 'c) env \<Rightarrow> string list \<Rightarrow> ('a, 'e, 'c) data_array list \<Rightarrow> string list \<Rightarrow>
     string list \<times> (error + ('a, 'e, 'c) data_array list)" where
  "process_files ev [] datasets out = (out, Inr datasets)"
| "process_files ev (file_path # file_list) datasets out =
     (let h = parse_header (float ev) (readlines ev file_path);
          out' = (if warned h then out @ [file_path] else out)
      in case (data_start_line h, angle_value h) of
           (Some n, Some a) \<Rightarrow>
             (case read_csv ev file_path n of
                Inl e \<Rightarrow> (out', Inl e)
              | Inr df \<Rightarrow> process_files ev file_list (datasets @ [mk_data_array df a]) out')
         | _ \<Rightarrow> process_files ev file_list datasets out')"

subsection \<open>Concatenation and the \<^verbatim>\<open>ky\<close> coordinate\<close>

text \<open>
  \<^verbatim>\<open>xr.concat(datasets, dim='angle', join='outer')\<close>, following xarray's documentation of
  \<^verbatim>\<open>concat\<close> and \<^verbatim>\<open>align\<close>:
  \<^item> an empty list raises \<^verbatim>\<open>ValueError\<close>;
  \<^item> \<^verbatim>\<open>y_pixel\<close> is a dimension without coordinate labels, and arrays whose sizes
    differ along such a dimension cannot be aligned: \<^verbatim>\<open>ValueError\<close>;
  \<^item> \<^verbatim>\<open>energy\<close> is an index: when all arrays have the same index it is kept as it
    is; otherwise the arrays are reindexed to the sorted union of the indexes, which
    is refused (\<^verbatim>\<open>ValueError\<close>) for an index with duplicate values, and a label an
    array does not have gives a row of \<open>fill\<close> values (NaN);
  \<^item> along \<^verbatim>\<open>angle\<close> the arrays follow each other in the order given.
\<close>

definition reindex ::
  "'c \<Rightarrow> 'e list \<Rightarrow> ('a, 'e, 'c) data_array \<Rightarrow> 'c list list" where
  "reindex fill idx d =
     map (\<lambda>e. case map_of (zip (da_energy d) (da_values d)) e of
                 None \<Rightarrow> replicate (da_y_pixel d) fill
               | Some row \<Rightarrow> row) idx"

definition xr_concat ::
  "'c \<Rightarrow> ('a, 'e :: linorder, 'c) data_array list \<Rightarrow> error + ('a, 'e, 'c) combined_data" where
  "xr_concat fill datasets =
     (case datasets of
        [] \<Rightarrow> Inl (ValueError ''must supply at least one object to concatenate'')
      | d # ds \<Rightarrow>
          if \<exists>x \<in> set ds. da_y_pixel x \<noteq> da_y_pixel d
          then Inl (ValueError ''conflicting dimension sizes along y_pixel'')
          else if \<forall>x \<in> set ds. da_energy x = da_energy d
          then Inr \<lparr>cd_angle = map angle datasets, cd_energy = da_energy d,
                    cd_y_pixel = da_y_pixel d, cd_values = map da_values datasets\<rparr>
          else if \<exists>x \<in> set datasets. \<not> distinct (da_energy x)
          then Inl (ValueError ''cannot reindex along energy: duplicate index values'')
          else
            (let idx = sort (remdups (concat (map da_energy datasets)))
             in Inr \<lparr>cd_angle = map angle datasets, cd_energy = idx,
                      cd_y_pixel = da_y_pixel d,
                      cd_values = map (reindex fill idx) datasets\<rparr>))"

text \<open>
  A double is kept as the rational number it denotes. \<open>round_double\<close> is the rounding of
  IEEE 754 binary64 arithmetic, to the nearest double and to the even one of two nearest:
  the result is a multiple of \<open>2 ^ (e - 52)\<close>, where \<open>2 ^ e\<close> is the largest power of two not
  above the magnitude, and of \<open>2 ^ -1074\<close> in the subnormal range. A magnitude of
  \<open>2 ^ 1024\<close> or more, which no finite double holds, does not arise below: it would take an
  array of that many entries.
\<close>

definition pow2 :: "int \<Rightarrow> rat" where
  "pow2 z = (if 0 \<le> z then 2 ^ nat z else 1 / 2 ^ nat (- z))"

definition ilog2 :: "rat \<Rightarrow> int" where
  "ilog2 x =
     (let (a, b) = quotient_of \<bar>x\<bar>; d = bitlen a - bitlen b
      in if pow2 d \<le> \<bar>x\<bar> then d else d - 1)"

definition round_half_even :: "rat \<Rightarrow> int" where
  "round_half_even m =
     (let f = \<lfloor>m\<rfloor>; d = m - of_int f
      in if d < 1 / 2 then f else if 1 / 2 < d then f + 1 else if even f then f else f + 1)"

definition round_double :: "rat \<Rightarrow> rat" where
  "round_double x =
     (if x = 0 then 0
      else
        (let e = max (ilog2 x) (- 1022); q = pow2 (e - 52)
         in sgn x * of_int (round_half_even (\<bar>x\<bar> / q)) * q))"

text \<open>
  \<^verbatim>\<open>np.linspace(start, stop, num)\<close> on doubles, as numpy computes it:
  \<^verbatim>\<open>y = arange(0, num)\<close>, \<^verbatim>\<open>step = (stop - start) / (num - 1)\<close>, \<^verbatim>\<open>y = y * step + start\<close>
  (\<^verbatim>\<open>y = (y / (num - 1)) * (stop - start) + start\<close> when the step underflows to zero), and
  last \<^verbatim>\<open>y[-1] = stop\<close> when \<^verbatim>\<open>num > 1\<close>. Every operation rounds its result. \<open>divisor\<close> is
  the variable \<^verbatim>\<open>div\<close> of numpy.
\<close>

definition linspace :: "rat \<Rightarrow> rat \<Rightarrow> nat \<Rightarrow> rat list" where
  "linspace start stop num =
     (let divisor = int num - 1;
          delta = round_double (stop - start);
          y = (if 0 < divisor then
                 (let step = round_double (delta / round_double (of_int divisor))
                  in if step = 0 then
                       map (\<lambda>i. round_double
                                 (round_double
                                    (round_double (of_nat i) / round_double (of_int divisor))
                                  * delta)) [0..<num]
                     else map (\<lambda>i. round_double (round_double (of_nat i) * step)) [0..<num])
               else map (\<lambda>i. round_double (round_double (of_nat i) * delta)) [0..<num]);
          y = map (\<lambda>v. round_double (v + start)) y
      in if 1 < num then y[num - 1 := stop] else y)"

definition first_pixel_momentum :: rat where
  "first_pixel_momentum = -1"

definition last_pixel_momentum :: rat where
  "last_pixel_momentum = 1"

subsection \<open>The loader\<close>

definition no_valid_datasets :: error where
  "no_valid_datasets = ValueError ''No valid datasets were created. Check file format.''"

text \<open>
  \<^verbatim>\<open>rename({'angle': 'kx'})\<close> and \<^verbatim>\<open>assign_coords(ky=('y_pixel', ky_values))\<close> with
  \<^verbatim>\<open>ky_values = np.linspace(first_pixel_momentum, last_pixel_momentum, sizes['y_pixel'])\<close>.
\<close>

definition assign_ky :: "('a, 'e, 'c) combined_data \<Rightarrow> ('a, 'e, 'c) spectra" where
  "assign_ky c =
     \<lparr>kx = cd_angle c, energy = cd_energy c, y_pixel = cd_y_pixel c,
      intensity = cd_values c,
      ky = linspace first_pixel_momentum last_pixel_momentum (cd_y_pixel c)\<rparr>"

text \<open>What follows the loop: the check of \<open>datasets\<close>, the concatenation, \<^verbatim>\<open>ky\<close>.\<close>

definition combine_datasets ::
  "'c \<Rightarrow> ('a, 'e :: linorder, 'c) data_array list \<Rightarrow> error + ('a, 'e, 'c) spectra" where
  "combine_datasets fill datasets =
     (if datasets = [] then Inl no_valid_datasets
      else
        (case xr_concat fill datasets of
           Inl e \<Rightarrow> Inl e
         | Inr combined \<Rightarrow> Inr (assign_ky combined)))"

text \<open>
  The result is the list of printed warnings and either the raised exception or the
  returned array. \<^verbatim>\<open>sorted\<close> orders the paths as strings.
\<close>

definition load_ses_spectra ::
  "('a, 'e :: linorder, 'c) env \<Rightarrow> string \<Rightarrow> string \<Rightarrow>
     string list \<times> (error + ('a, 'e, 'c) spectra)" where
  "load_ses_spectra ev directory_path file_pattern =
     (let file_list = sort (glob ev directory_path file_pattern)
      in if file_list = [] then ([], Inl FileNotFoundError)
         else
           (case process_files ev file_list [] [] of
              (out, Inl e) \<Rightarrow> (out, Inl e)
            | (out, Inr datasets) \<Rightarrow> (out, combine_datasets (nan ev) datasets)))"

subsection \<open>Notions the properties are stated with\<close>

text \<open>Some line of the file contains the marker.\<close>

definition has_marker :: "string list \<Rightarrow> bool" where
  "has_marker lines = (\<exists>l \<in> set lines. str_contains ''[Data]'' l)"

text \<open>Line \<open>i\<close> is the first line of the file that contains the marker.\<close>

definition first_marker :: "string list \<Rightarrow> nat \<Rightarrow> bool" where
  "first_marker lines i =
     (i < length lines \<and> str_contains ''[Data]'' (lines ! i) \<and> \<not> has_marker (take i lines))"

text \<open>
  The test \<^verbatim>\<open>data_start_line is None or angle_value is None\<close> that makes the loop go on to
  the next file.
\<close>

definition skipped :: "('a, 'e, 'c) env \<Rightarrow> string \<Rightarrow> bool" where
  "skipped ev file_path =
     (let h = parse_header (float ev) (readlines ev file_path)
      in data_start_line h = None \<or> angle_value h = None)"

text \<open>
  The array a file contributes when the loop body reaches \<^verbatim>\<open>datasets.append\<close>:
  \<open>None\<close> when the file is skipped or \<^verbatim>\<open>read_csv\<close> raises.
\<close>

definition slice :: "('a, 'e, 'c) env \<Rightarrow> string \<Rightarrow> ('a, 'e, 'c) data_array option" where
  "slice ev file_path =
     (let h = parse_header (float ev) (readlines ev file_path)
      in case (data_start_line h, angle_value h) of
           (Some n, Some a) \<Rightarrow>
             (case read_csv ev file_path n of
                Inl e \<Rightarrow> None
              | Inr df \<Rightarrow> Some (mk_data_array df a))
         | _ \<Rightarrow> None)"

text \<open>
  The arrays that \<open>xr_concat\<close> accepts: one size along \<^verbatim>\<open>y_pixel\<close>, and either one energy
  index for all or no energy repeated within an array.
\<close>

definition compatible :: "('a, 'e, 'c) data_array list \<Rightarrow> bool" where
  "compatible datasets =
     ((\<forall>x \<in> set datasets. \<forall>y \<in> set datasets. da_y_pixel x = da_y_pixel y) \<and>
      ((\<forall>x \<in> set datasets. \<forall>y \<in> set datasets. da_energy x = da_energy y) \<or>
       (\<forall>x \<in> set datasets. distinct (da_energy x))))"

text \<open>
  The rows of the array \<open>d\<close> within the combined array, whose energy index is \<open>idx\<close>:
  \<open>rows\<close> has a row for every label of \<open>idx\<close>, every row of \<open>d\<close> is the row at a position
  that carries its energy, and a row at a label that \<open>d\<close> does not have is \<open>m\<close> fill values.
\<close>

definition rows_kept ::
  "'c \<Rightarrow> ('a, 'e, 'c) data_array \<Rightarrow> 'e list \<Rightarrow> nat \<Rightarrow> 'c list list \<Rightarrow> bool" where
  "rows_kept fill d idx m rows =
     (length rows = length idx \<and>
      (\<forall>n < length (da_energy d).
         \<exists>j < length idx. idx ! j = da_energy d ! n \<and> rows ! j = da_values d ! n) \<and>
      (\<forall>j < length idx. idx ! j \<notin> set (da_energy d) \<longrightarrow> rows ! j = replicate m fill))"

text \<open>The same environment with the file \<open>p\<close> absent from every directory listing.\<close>

definition without :: "string \<Rightarrow> ('a, 'e, 'c) env \<Rightarrow> ('a, 'e, 'c) env" where
  "without p ev = ev\<lparr>glob := \<lambda>d pat. filter (\<lambda>q. q \<noteq> p) (glob ev d pat)\<rparr>"

subsection \<open>An environment for the examples\<close>

text \<open>
  An instance of \<open>float\<close>: on a string of ASCII digits it returns the number, as
  Python does, and it rejects every other string. The examples apply it to digit strings
  and to strings that Python's \<^verbatim>\<open>float\<close> rejects as well.
\<close>

definition digit_float :: "string \<Rightarrow> rat option" where
  "digit_float s =
     (if s \<noteq> [] \<and> (\<forall>c \<in> set s. c \<in> set ''0123456789'')
      then Some (of_nat (foldl (\<lambda>n c. 10 * n + (of_char c - 48)) 0 s))
      else None)"

fun split_tabs :: "string \<Rightarrow> string list" where
  "split_tabs [] = [[]]"
| "split_tabs (c # cs) =
     (if c = CHR 0x09 then [] # split_tabs cs
      else (case split_tabs cs of
              [] \<Rightarrow> [[c]]
            | f # fs \<Rightarrow> (c # f) # fs))"

definition chomp :: "string \<Rightarrow> string" where
  "chomp s = (if s \<noteq> [] \<and> last s = CHR 0x0A then butlast s else s)"

text \<open>
  An instance of \<open>read_csv\<close>: when the lines after the skipped ones are rows of digit
  fields, all of one length, it returns the table pandas returns (a cell is \<open>Some\<close> of
  its number, \<open>None\<close> stands for NaN); the examples have no other table, and on
  anything else this instance raises.
\<close>

definition digits_read_csv ::
  "(string \<Rightarrow> string list) \<Rightarrow> string \<Rightarrow> nat \<Rightarrow> error + (rat, rat option) dataframe" where
  "digits_read_csv rl file_path n =
     (let rows = map (\<lambda>l. map digit_float (split_tabs (chomp l))) (drop n (rl file_path))
      in case rows of
           [] \<Rightarrow> Inl (LibraryError ''EmptyDataError'')
         | r # rs \<Rightarrow>
             if r = [] \<or> (\<exists>x \<in> set rows. length x \<noteq> length r \<or> None \<in> set x)
             then Inl (LibraryError ''not a table of digits'')
             else Inr \<lparr>iloc_first = map (\<lambda>x. the (hd x)) rows,
                       iloc_rest = map tl rows,
                       n_rest = length r - 1\<rparr>)"

definition ln :: "string \<Rightarrow> string" where
  "ln s = s @ [CHR 0x0A]"

definition tab :: "string \<Rightarrow> string \<Rightarrow> string" where
  "tab s t = s @ [CHR 0x09] @ t"

text \<open>
  The files of the examples. \<^verbatim>\<open>s1.txt\<close> has its angle 3 lines before the marker,
  \<^verbatim>\<open>s2.txt\<close> 4 lines before it, \<^verbatim>\<open>wide.txt\<close> has three pixel columns and \<^verbatim>\<open>four.txt\<close>
  four where the others have two, \<^verbatim>\<open>dup.txt\<close> has the energy 1 on two of its three rows,
  \<^verbatim>\<open>bad.txt\<close> has no number at either place, \<^verbatim>\<open>none.txt\<close> has no marker,
  \<^verbatim>\<open>wrap.txt\<close> starts with the marker, and \<^verbatim>\<open>short.txt\<close> is the marker line alone.
\<close>

definition example_files :: "string \<Rightarrow> string list" where
  "example_files file_path =
     (if file_path = ''s1.txt'' then
        map ln [''[Info]'', ''10'', ''x'', ''y'', ''[Data]'',
                tab ''1'' (tab ''5'' ''6''), tab ''2'' (tab ''7'' ''8'')]
      else if file_path = ''s2.txt'' then
        map ln [''20'', ''abc'', ''x'', ''y'', ''[Data]'',
                tab ''1'' (tab ''9'' ''9''), tab ''3'' (tab ''4'' ''4'')]
      else if file_path = ''wide.txt'' then
        map ln [''30'', ''x'', ''y'', ''[Data]'', tab ''1'' (tab ''1'' (tab ''2'' ''3''))]
      else if file_path = ''four.txt'' then
        map ln [''50'', ''x'', ''y'', ''[Data]'',
                tab ''1'' (tab ''1'' (tab ''2'' (tab ''3'' ''4'')))]
      else if file_path = ''dup.txt'' then
        map ln [''40'', ''x'', ''y'', ''[Data]'',
                tab ''1'' (tab ''1'' ''1''), tab ''1'' (tab ''2'' ''2''),
                tab ''3'' (tab ''3'' ''3'')]
      else if file_path = ''bad.txt'' then
        map ln [''a'', ''b'', ''c'', ''d'', ''[Data]'', tab ''1'' ''2'']
      else if file_path = ''none.txt'' then
        map ln [''a'', tab ''1'' ''2'']
      else if file_path = ''wrap.txt'' then
        map ln [''[Data]'', ''1'', ''2'', ''3'']
      else if file_path = ''short.txt'' then
        map ln [''[Data]'']
      else [])"

text \<open>The environment in which the glob matches the files \<open>matched\<close>.\<close>

definition example_env :: "string list \<Rightarrow> (rat, rat, rat option) env" where
  "example_env matched =
     \<lparr>glob = (\<lambda>d pat. matched), readlines = example_files, float = digit_float,
      read_csv = digits_read_csv example_files, nan = None\<rparr>"

section \<open>Properties\<close>

subsection \<open>Basic facts\<close>

lemma scan_lines_no_marker:
  "\<forall>l \<in> set rest. \<not> str_contains ''[Data]'' l \<Longrightarrow>
   scan_lines pf lines i rest = \<lparr>data_start_line = None, angle_value = None, warned = False\<rparr>"
  by (induction rest arbitrary: i) simp_all

text \<open>The scan stops at the first marker line and reads the angle relative to it.\<close>

lemma scan_lines_first:
  "\<not> has_marker pre \<Longrightarrow> str_contains ''[Data]'' l \<Longrightarrow>
   scan_lines pf lines j (pre @ l # post) =
     \<lparr>data_start_line = Some (j + length pre + 1),
      angle_value = read_angle pf lines (j + length pre),
      warned = (read_angle pf lines (j + length pre) = None)\<rparr>"
  by (induction pre arbitrary: j) (simp_all add: has_marker_def)

lemma parse_header_first_marker:
  assumes "first_marker lines i"
  shows "parse_header pf lines =
     \<lparr>data_start_line = Some (i + 1), angle_value = read_angle pf lines i,
      warned = (read_angle pf lines i = None)\<rparr>"
proof -
  from assms have i: "i < length lines" and m: "str_contains ''[Data]'' (lines ! i)"
    and pre: "\<not> has_marker (take i lines)"
    by (simp_all add: first_marker_def)
  have "lines = take i lines @ lines ! i # drop (Suc i) lines"
    using i by (rule id_take_nth_drop)
  then have "scan_lines pf lines 0 lines =
     scan_lines pf lines 0 (take i lines @ lines ! i # drop (Suc i) lines)"
    by simp
  also have "\<dots> = \<lparr>data_start_line = Some (0 + length (take i lines) + 1),
      angle_value = read_angle pf lines (0 + length (take i lines)),
      warned = (read_angle pf lines (0 + length (take i lines)) = None)\<rparr>"
    using pre m by (rule scan_lines_first)
  finally show ?thesis using i by (simp add: parse_header_def min_def)
qed

lemma parse_header_no_marker:
  "\<not> has_marker lines \<Longrightarrow>
   parse_header pf lines = \<lparr>data_start_line = None, angle_value = None, warned = False\<rparr>"
  unfolding parse_header_def has_marker_def by (simp add: scan_lines_no_marker)

lemma has_marker_first:
  assumes "has_marker lines"
  shows "\<exists>i. first_marker lines i"
proof -
  from assms obtain k where k: "k < length lines" "str_contains ''[Data]'' (lines ! k)"
    unfolding has_marker_def by (auto simp: in_set_conv_nth)
  define i where "i = (LEAST k. k < length lines \<and> str_contains ''[Data]'' (lines ! k))"
  have i: "i < length lines \<and> str_contains ''[Data]'' (lines ! i)"
    unfolding i_def by (rule LeastI [of _ k]) (simp add: k)
  have "\<not> has_marker (take i lines)"
  proof
    assume "has_marker (take i lines)"
    then obtain j where j: "j < i" "str_contains ''[Data]'' (lines ! j)"
      unfolding has_marker_def by (auto simp: in_set_conv_nth)
    with i have "j < length lines \<and> str_contains ''[Data]'' (lines ! j)" by simp
    then have "i \<le> j" unfolding i_def by (rule Least_le)
    with j show False by simp
  qed
  with i show ?thesis unfolding first_marker_def by blast
qed

lemma first_marker_has_marker: "first_marker lines i \<Longrightarrow> has_marker lines"
  unfolding first_marker_def has_marker_def using nth_mem by blast

text \<open>The warning is printed exactly when a marker was found and no angle was read.\<close>

lemma warned_iff:
  "warned (parse_header pf lines) \<longleftrightarrow>
   data_start_line (parse_header pf lines) \<noteq> None \<and> angle_value (parse_header pf lines) = None"
proof (cases "has_marker lines")
  case True
  then obtain i where "first_marker lines i" using has_marker_first by blast
  then show ?thesis by (simp add: parse_header_first_marker)
next
  case False
  then show ?thesis by (simp add: parse_header_no_marker)
qed

text \<open>The loop reads neither the directory listing nor the fill value.\<close>

lemma process_files_glob_update:
  "process_files (ev\<lparr>glob := g\<rparr>) ps ds out = process_files ev ps ds out"
  by (induction ps arbitrary: ds out) (simp_all add: Let_def split: option.splits sum.splits)

text \<open>The warnings printed so far stay in front of the later ones.\<close>

lemma process_files_out:
  "process_files ev ps ds out =
     (out @ fst (process_files ev ps ds []), snd (process_files ev ps ds []))"
proof (induction ps arbitrary: ds out)
  case Nil
  then show ?case by simp
next
  case (Cons p ps)
  from Cons.IH [of _ "out @ [p]"] Cons.IH [of _ "[p]"] Cons.IH [of _ out]
  show ?case
    by (auto simp add: Let_def split: option.splits sum.splits)
qed

text \<open>A skipped file leaves the datasets as they are.\<close>

lemma process_files_skipped:
  "skipped ev p \<Longrightarrow>
   process_files ev (p # ps) ds out =
     process_files ev ps ds
       (if warned (parse_header (float ev) (readlines ev p)) then out @ [p] else out)"
  by (auto simp add: skipped_def Let_def split: option.splits)

text \<open>
  Taking a skipped file out of the list changes nothing but the warnings about that file.
\<close>

lemma process_files_filter:
  assumes "skipped ev p"
  shows "process_files ev (filter (\<lambda>q. q \<noteq> p) ps) ds (filter (\<lambda>q. q \<noteq> p) out) =
     (filter (\<lambda>q. q \<noteq> p) (fst (process_files ev ps ds out)), snd (process_files ev ps ds out))"
proof (induction ps arbitrary: ds out)
  case Nil
  then show ?case by simp
next
  case (Cons a ps)
  show ?case
  proof (cases "a = p")
    case True
    have "process_files ev (a # ps) ds out =
       process_files ev ps ds
         (if warned (parse_header (float ev) (readlines ev p)) then out @ [p] else out)"
      using assms True by (simp only: process_files_skipped)
    moreover have "filter (\<lambda>q. q \<noteq> p) (if warned (parse_header (float ev) (readlines ev p)) then out @ [p] else out)
       = filter (\<lambda>q. q \<noteq> p) out" by simp
    ultimately show ?thesis using True Cons.IH [of ds "(if warned (parse_header (float ev) (readlines ev p)) then out @ [p] else out)"]
      by simp
  next
    case False
    from False Cons.IH [of _ "out @ [a]"] Cons.IH [of _ out]
    show ?thesis
      by (auto simp add: Let_def split: option.splits sum.splits)
  qed
qed

lemma process_files_all_skipped:
  "\<forall>p \<in> set ps. skipped ev p \<Longrightarrow> snd (process_files ev ps ds out) = Inr ds"
proof (induction ps arbitrary: out)
  case Nil
  then show ?case by simp
next
  case (Cons a ps)
  then show ?case by (simp only: process_files_skipped list.set_intros ball_simps) simp
qed

text \<open>Only files with a marker and no angle are warned about.\<close>

lemma process_files_warnings:
  "set (fst (process_files ev ps ds out)) \<subseteq>
     set out \<union> {p \<in> set ps. warned (parse_header (float ev) (readlines ev p))}"
proof (induction ps arbitrary: ds out)
  case Nil
  then show ?case by simp
next
  case (Cons a ps)
  from Cons.IH [of _ "out @ [a]"] Cons.IH [of _ out]
  show ?case
    by (auto simp add: Let_def split: option.splits sum.splits)
qed

text \<open>The loader on a directory listing that is not empty.\<close>

lemma load_ses_spectra_nonempty:
  "glob ev d pat \<noteq> [] \<Longrightarrow>
   load_ses_spectra ev d pat =
     (fst (process_files ev (sort (glob ev d pat)) [] []),
      case snd (process_files ev (sort (glob ev d pat)) [] []) of
        Inl e \<Rightarrow> Inl e
      | Inr datasets \<Rightarrow> combine_datasets (nan ev) datasets)"
proof -
  assume "glob ev d pat \<noteq> []"
  then have "sort (glob ev d pat) \<noteq> []"
    by (metis length_sort length_0_conv)
  then show ?thesis
    by (simp add: load_ses_spectra_def Let_def split: prod.splits sum.splits)
qed

lemma load_ses_spectra_without:
  assumes "skipped ev p" and "\<exists>q \<in> set (glob ev d pat). q \<noteq> p"
  shows "load_ses_spectra (without p ev) d pat =
     (filter (\<lambda>q. q \<noteq> p) (fst (load_ses_spectra ev d pat)), snd (load_ses_spectra ev d pat))"
proof -
  let ?fl = "sort (glob ev d pat)"
  have ne: "glob ev d pat \<noteq> []" using assms(2) by auto
  have ne': "glob (without p ev) d pat \<noteq> []"
    using assms(2) by (auto simp add: without_def filter_empty_conv)
  have fl': "sort (glob (without p ev) d pat) = filter (\<lambda>q. q \<noteq> p) ?fl"
    by (simp add: without_def filter_sort)
  have pf: "process_files (without p ev) (filter (\<lambda>q. q \<noteq> p) ?fl) [] [] =
     (filter (\<lambda>q. q \<noteq> p) (fst (process_files ev ?fl [] [])), snd (process_files ev ?fl [] []))"
    using process_files_filter [OF assms(1), of ?fl "[]" "[]"]
    by (simp add: without_def process_files_glob_update)
  have nan: "nan (without p ev) = nan ev" by (simp add: without_def)
  show ?thesis
    by (simp add: load_ses_spectra_nonempty [OF ne] load_ses_spectra_nonempty [OF ne'] fl' pf nan cong: sum.case_cong)
qed

text \<open>When the loop runs to its end, every file with a marker and no angle was warned about.\<close>

lemma process_files_warned_reached:
  "snd (process_files ev ps ds out) = Inr ds' \<Longrightarrow> p \<in> set ps \<Longrightarrow>
   warned (parse_header (float ev) (readlines ev p)) \<Longrightarrow>
   p \<in> set (fst (process_files ev ps ds out))"
proof (induction ps arbitrary: ds out)
  case Nil
  then show ?case by simp
next
  case (Cons a ps)
  show ?case
  proof (cases "a = p")
    case True
    have sk: "skipped ev p"
      using Cons.prems(3) by (simp add: skipped_def warned_iff)
    have "process_files ev (a # ps) ds out = process_files ev ps ds (out @ [p])"
      using process_files_skipped [OF sk, of ps ds out] Cons.prems(3) True by simp
    also have "\<dots> = ((out @ [p]) @ fst (process_files ev ps ds []), snd (process_files ev ps ds []))"
      by (rule process_files_out)
    finally show ?thesis by simp
  next
    case False
    with Cons.prems(2) have p: "p \<in> set ps" by simp
    from Cons.prems(1) Cons.IH [OF _ p Cons.prems(3)]
    show ?thesis
      by (auto simp add: Let_def split: option.splits sum.splits)
  qed
qed

text \<open>Indexing with a negative and with a non-negative index.\<close>

lemma py_getitem_negative:
  assumes "k < 0"
  shows "py_getitem xs k =
     (if - k \<le> int (length xs) then Inr (xs ! nat (int (length xs) + k)) else Inl IndexError)"
  using assms by (simp add: py_getitem_def Let_def add.commute)

lemma py_getitem_nonneg:
  assumes "0 \<le> k" and "k < int (length xs)"
  shows "py_getitem xs k = Inr (xs ! nat k)"
  using assms by (simp add: py_getitem_def Let_def)

text \<open>
  With the marker at line 4 or later both lookups stay inside the file: the angle is read
  from the line 3 before the marker, and when that fails from the line 4 before it.
\<close>

lemma read_angle_inside_header:
  assumes "4 \<le> i" and "i < length lines"
  shows "read_angle pyfloat lines i =
     (case pyfloat (strip (lines ! (i - 3))) of
        Some a \<Rightarrow> Some a
      | None \<Rightarrow> pyfloat (strip (lines ! (i - 4))))"
proof -
  have "py_getitem lines (int i - 3) = Inr (lines ! nat (int i - 3))"
    using assms by (intro py_getitem_nonneg) simp_all
  moreover have "nat (int i - 3) = i - 3" using assms by simp
  moreover have "py_getitem lines (int i - 4) = Inr (lines ! nat (int i - 4))"
    using assms by (intro py_getitem_nonneg) simp_all
  moreover have "nat (int i - 4) = i - 4" using assms by simp
  ultimately show ?thesis
    by (simp add: read_angle_def try_float_def split: option.splits)
qed

text \<open>The first marker line is unique, and a file is skipped in one of two ways.\<close>

lemma first_marker_unique:
  assumes "first_marker lines i" and "first_marker lines j"
  shows "i = j"
proof -
  have "Some (i + 1) = Some (j + 1)"
    using parse_header_first_marker [OF assms(1), of "\<lambda>s. (None :: unit option)"]
      parse_header_first_marker [OF assms(2), of "\<lambda>s. (None :: unit option)"]
    by simp
  then show ?thesis by simp
qed

lemma skipped_cases:
  "skipped ev p \<longleftrightarrow>
     \<not> has_marker (readlines ev p) \<or>
     (\<exists>i. first_marker (readlines ev p) i \<and> read_angle (float ev) (readlines ev p) i = None)"
proof (cases "has_marker (readlines ev p)")
  case True
  then obtain i where i: "first_marker (readlines ev p) i" using has_marker_first by blast
  have "skipped ev p \<longleftrightarrow> read_angle (float ev) (readlines ev p) i = None"
    by (simp add: skipped_def parse_header_first_marker [OF i])
  also have "\<dots> \<longleftrightarrow>
      (\<exists>j. first_marker (readlines ev p) j \<and> read_angle (float ev) (readlines ev p) j = None)"
    using i first_marker_unique [OF i] by blast
  finally show ?thesis using True by simp
next
  case False
  have "skipped ev p"
    by (simp add: skipped_def parse_header_no_marker [OF False])
  with False show ?thesis by simp
qed

subsection \<open>What the loop collects and what the concatenation keeps\<close>

lemma slice_first_marker:
  assumes "first_marker (readlines ev p) i"
  shows "slice ev p =
     (case read_angle (float ev) (readlines ev p) i of
        None \<Rightarrow> None
      | Some a \<Rightarrow>
          (case read_csv ev p (i + 1) of
             Inl e \<Rightarrow> None
           | Inr df \<Rightarrow> Some (mk_data_array df a)))"
  by (simp add: slice_def parse_header_first_marker [OF assms] split: option.splits)

text \<open>When every file yields an array, the loop collects them in order and prints nothing.\<close>

lemma process_files_all_ok:
  "\<forall>p \<in> set ps. slice ev p \<noteq> None \<Longrightarrow>
   process_files ev ps ds out = (out, Inr (ds @ map (\<lambda>p. the (slice ev p)) ps))"
proof (induction ps arbitrary: ds)
  case Nil
  then show ?case by simp
next
  case (Cons p ps)
  from Cons.prems have p: "slice ev p \<noteq> None" and ps: "\<forall>q \<in> set ps. slice ev q \<noteq> None"
    by simp_all
  from p obtain n a df where
    h: "data_start_line (parse_header (float ev) (readlines ev p)) = Some n"
       "angle_value (parse_header (float ev) (readlines ev p)) = Some a"
    and df: "read_csv ev p n = Inr df"
    by (auto simp add: slice_def Let_def split: option.splits sum.splits)
  have nw: "\<not> warned (parse_header (float ev) (readlines ev p))"
    using h by (simp add: warned_iff)
  have sl: "the (slice ev p) = mk_data_array df a"
    using h df by (simp add: slice_def)
  have "process_files ev (p # ps) ds out = process_files ev ps (ds @ [mk_data_array df a]) out"
    using h df nw by (simp add: Let_def)
  also have "\<dots> = (out, Inr ((ds @ [mk_data_array df a]) @ map (\<lambda>p. the (slice ev p)) ps))"
    using ps by (rule Cons.IH)
  finally show ?case using sl by simp
qed



text \<open>A successful concatenation keeps the angles in order and has one pixel count.\<close>

lemma xr_concat_Inr:
  assumes "xr_concat fill ds = Inr c"
  obtains d ds' where "ds = d # ds'" "\<forall>x \<in> set ds'. da_y_pixel x = da_y_pixel d"
    "cd_angle c = map angle ds" "cd_y_pixel c = da_y_pixel d"
proof (cases ds)
  case Nil
  with assms show ?thesis by (simp add: xr_concat_def)
next
  case (Cons d ds')
  have yp: "\<forall>x \<in> set ds'. da_y_pixel x = da_y_pixel d"
  proof (rule ccontr)
    assume "\<not> ?thesis"
    then have "\<exists>x \<in> set ds'. da_y_pixel x \<noteq> da_y_pixel d" by simp
    with assms Cons show False by (simp add: xr_concat_def)
  qed
  then have ne: "\<not> (\<exists>x \<in> set ds'. da_y_pixel x \<noteq> da_y_pixel d)" by simp
  show ?thesis
  proof (cases "\<forall>x \<in> set ds'. da_energy x = da_energy d")
    case True
    with assms Cons ne have "c = \<lparr>cd_angle = map angle ds, cd_energy = da_energy d,
                    cd_y_pixel = da_y_pixel d, cd_values = map da_values ds\<rparr>"
      by (simp add: xr_concat_def)
    with Cons yp show ?thesis by (intro that) simp_all
  next
    case False
    show ?thesis
    proof (cases "\<exists>x \<in> set ds. \<not> distinct (da_energy x)")
      case True
      with assms Cons ne False show ?thesis by (simp add: xr_concat_def)
    next
      case nd: False
      with assms Cons ne False have "c = \<lparr>cd_angle = map angle ds,
          cd_energy = sort (remdups (concat (map da_energy ds))),
          cd_y_pixel = da_y_pixel d,
          cd_values = map (reindex fill (sort (remdups (concat (map da_energy ds))))) ds\<rparr>"
        by (simp add: xr_concat_def Let_def)
      with Cons yp show ?thesis by (intro that) simp_all
    qed
  qed
qed

lemma xr_concat_angle:
  "xr_concat fill ds = Inr c \<Longrightarrow> cd_angle c = map angle ds"
  by (erule xr_concat_Inr)




subsection \<open>Reindexing along energy\<close>

lemma reindex_length: "length (reindex fill idx d) = length idx"
  by (simp add: reindex_def)

lemma reindex_present:
  assumes "distinct (da_energy d)" and "length (da_values d) = length (da_energy d)"
    and "j < length idx" and "n < length (da_energy d)" and "da_energy d ! n = idx ! j"
  shows "reindex fill idx d ! j = da_values d ! n"
proof -
  have "map_of (zip (da_energy d) (da_values d)) (da_energy d ! n) = Some (da_values d ! n)"
    using assms(1,2,4) by (intro map_of_zip_nth) simp_all
  then show ?thesis using assms(3,5) by (simp add: reindex_def)
qed

lemma reindex_absent:
  assumes "length (da_values d) = length (da_energy d)"
    and "j < length idx" and "idx ! j \<notin> set (da_energy d)"
  shows "reindex fill idx d ! j = replicate (da_y_pixel d) fill"
proof -
  have "map_of (zip (da_energy d) (da_values d)) (idx ! j) = None"
    using assms(1,3) by (simp add: map_of_zip_is_None)
  then show ?thesis using assms(2) by (simp add: reindex_def)
qed

lemma reindex_same:
  assumes "distinct (da_energy d)" and "length (da_values d) = length (da_energy d)"
  shows "reindex fill (da_energy d) d = da_values d"
proof (rule nth_equalityI)
  show "length (reindex fill (da_energy d) d) = length (da_values d)"
    using assms(2) by (simp add: reindex_length)
next
  fix j assume "j < length (reindex fill (da_energy d) d)"
  then have j: "j < length (da_energy d)" by (simp add: reindex_length)
  then show "reindex fill (da_energy d) d ! j = da_values d ! j"
    using assms by (intro reindex_present) simp_all
qed

subsection \<open>The linear sequence\<close>








subsection \<open>When the concatenation raises and when it returns\<close>

lemma compatible_set: "set xs = set ys \<Longrightarrow> compatible xs = compatible ys"
  by (simp only: compatible_def)

lemma compatible_y_pixel:
  "compatible ds \<Longrightarrow> x \<in> set ds \<Longrightarrow> y \<in> set ds \<Longrightarrow> da_y_pixel x = da_y_pixel y"
  unfolding compatible_def by (elim conjE) (drule (1) bspec, erule (1) bspec)

lemma compatible_energy:
  "compatible ds \<Longrightarrow>
   (\<forall>x \<in> set ds. \<forall>y \<in> set ds. da_energy x = da_energy y) \<or>
   (\<forall>x \<in> set ds. distinct (da_energy x))"
  unfolding compatible_def by (elim conjE)

lemma xr_concat_raises_pixel:
  assumes "\<exists>x \<in> set ds. \<exists>y \<in> set ds. da_y_pixel x \<noteq> da_y_pixel y"
  shows "xr_concat fill ds = Inl (ValueError ''conflicting dimension sizes along y_pixel'')"
proof (cases ds)
  case Nil
  with assms show ?thesis by simp
next
  case (Cons d ds')
  have "\<exists>x \<in> set ds'. da_y_pixel x \<noteq> da_y_pixel d"
  proof (rule ccontr)
    assume "\<not> ?thesis"
    then have "\<forall>x \<in> set ds. da_y_pixel x = da_y_pixel d" using Cons by simp
    with assms show False by metis
  qed
  then show ?thesis by (simp add: xr_concat_def Cons)
qed

lemma xr_concat_raises_duplicate:
  assumes "\<forall>x \<in> set ds. \<forall>y \<in> set ds. da_y_pixel x = da_y_pixel y"
    and "\<exists>x \<in> set ds. \<exists>y \<in> set ds. da_energy x \<noteq> da_energy y"
    and "\<exists>x \<in> set ds. \<not> distinct (da_energy x)"
  shows "xr_concat fill ds = Inl (ValueError ''cannot reindex along energy: duplicate index values'')"
proof (cases ds)
  case Nil
  from assms(3) have "ds \<noteq> []" by auto
  with Nil show ?thesis by simp
next
  case (Cons d ds')
  have d: "d \<in> set ds" using Cons by simp
  have "\<not> (\<exists>x \<in> set ds'. da_y_pixel x \<noteq> da_y_pixel d)"
  proof
    assume "\<exists>x \<in> set ds'. da_y_pixel x \<noteq> da_y_pixel d"
    then obtain x where x: "x \<in> set ds'" "da_y_pixel x \<noteq> da_y_pixel d" by (elim bexE)
    from x(1) have "x \<in> set ds" using Cons by simp
    from assms(1) [rule_format, OF this d] x(2) show False by (rule notE [rotated])
  qed
  then have p: "(\<exists>x \<in> set ds'. da_y_pixel x \<noteq> da_y_pixel d) \<longleftrightarrow> False"
    by (simp only:)
  have "\<not> (\<forall>x \<in> set ds'. da_energy x = da_energy d)"
  proof
    assume a: "\<forall>x \<in> set ds'. da_energy x = da_energy d"
    have "da_energy x = da_energy d" if "x \<in> set ds" for x
      using that a Cons by auto
    then have "\<And>x y. x \<in> set ds \<Longrightarrow> y \<in> set ds \<Longrightarrow> da_energy x = da_energy y"
      by simp
    with assms(2) show False by (elim bexE) (erule notE, assumption)
  qed
  then have e: "(\<forall>x \<in> set ds'. da_energy x = da_energy d) \<longleftrightarrow> False"
    by (simp only:)
  have u: "(\<exists>x \<in> set (d # ds'). \<not> distinct (da_energy x)) \<longleftrightarrow> True"
    using assms(3) unfolding Cons by (simp only:)
  show ?thesis
    unfolding xr_concat_def Cons list.case p e u by (simp only: if_False if_True)
qed

lemma not_compatible_cases:
  assumes "\<not> compatible ds"
  shows "(\<exists>x \<in> set ds. \<exists>y \<in> set ds. da_y_pixel x \<noteq> da_y_pixel y) \<or>
         ((\<forall>x \<in> set ds. \<forall>y \<in> set ds. da_y_pixel x = da_y_pixel y) \<and>
          (\<exists>x \<in> set ds. \<exists>y \<in> set ds. da_energy x \<noteq> da_energy y) \<and>
          (\<exists>x \<in> set ds. \<not> distinct (da_energy x)))"
  using assms unfolding compatible_def by blast

lemma xr_concat_not_compatible:
  assumes "\<not> compatible ds"
  shows "\<exists>msg. xr_concat fill ds = Inl (ValueError msg)"
  using not_compatible_cases [OF assms]
    xr_concat_raises_pixel [of ds fill] xr_concat_raises_duplicate [of ds fill]
  by (elim disjE conjE) iprover+

lemma rows_kept_same:
  assumes "length (da_values d) = length (da_energy d)"
  shows "rows_kept fill d (da_energy d) m (da_values d)"
  unfolding rows_kept_def using assms by auto

lemma rows_kept_reindex:
  assumes "distinct (da_energy d)" and "length (da_values d) = length (da_energy d)"
    and "set (da_energy d) \<subseteq> set idx"
  shows "rows_kept fill d idx (da_y_pixel d) (reindex fill idx d)"
  unfolding rows_kept_def
proof (intro conjI allI impI)
  show "length (reindex fill idx d) = length idx" by (rule reindex_length)
next
  fix n assume n: "n < length (da_energy d)"
  then have "da_energy d ! n \<in> set idx" using assms(3) by auto
  then obtain j where j: "j < length idx" "idx ! j = da_energy d ! n"
    by (auto simp add: in_set_conv_nth)
  have "reindex fill idx d ! j = da_values d ! n"
    using assms(1,2) j(1) n j(2) by (intro reindex_present) simp_all
  with j show "\<exists>j < length idx. idx ! j = da_energy d ! n \<and>
      reindex fill idx d ! j = da_values d ! n" by auto
next
  fix j assume "j < length idx" "idx ! j \<notin> set (da_energy d)"
  with assms(2) show "reindex fill idx d ! j = replicate (da_y_pixel d) fill"
    by (intro reindex_absent)
qed

lemma xr_concat_compatible:
  assumes "ds \<noteq> []" and "\<forall>d \<in> set ds. length (da_values d) = length (da_energy d)"
    and "compatible ds"
  shows "\<exists>c. xr_concat fill ds = Inr c \<and>
           set (cd_energy c) = (\<Union>d \<in> set ds. set (da_energy d)) \<and>
           (\<forall>d \<in> set ds. da_y_pixel d = cd_y_pixel c) \<and>
           length (cd_values c) = length ds \<and>
           (\<forall>k < length ds.
              rows_kept fill (ds ! k) (cd_energy c) (cd_y_pixel c) (cd_values c ! k))"
proof -
  from assms(1) obtain d ds' where ds: "ds = d # ds'" by (cases ds) auto
  have d: "d \<in> set ds" using ds by simp
  have yp: "\<forall>x \<in> set ds. da_y_pixel x = da_y_pixel d"
  proof
    fix x assume "x \<in> set ds"
    then show "da_y_pixel x = da_y_pixel d"
      using d by (rule compatible_y_pixel [OF assms(3)])
  qed
  then have p: "(\<exists>x \<in> set ds'. da_y_pixel x \<noteq> da_y_pixel d) \<longleftrightarrow> False"
    using ds by simp
  show ?thesis
  proof (cases "\<forall>x \<in> set ds'. da_energy x = da_energy d")
    case True
    let ?c = "\<lparr>cd_angle = map angle ds, cd_energy = da_energy d,
               cd_y_pixel = da_y_pixel d, cd_values = map da_values ds\<rparr>"
    have all: "\<forall>x \<in> set ds. da_energy x = da_energy d" using True ds by simp
    have c: "xr_concat fill ds = Inr ?c"
      using True by (simp add: xr_concat_def ds p)
    have u: "(\<Union>x \<in> set ds. set (da_energy x)) = set (da_energy d)"
      using all ds by auto
    have rows: "rows_kept fill (ds ! k) (da_energy d) (da_y_pixel d) (map da_values ds ! k)"
      if k: "k < length ds" for k
    proof -
      have mem: "ds ! k \<in> set ds" using k by simp
      with all have "da_energy (ds ! k) = da_energy d" by simp
      moreover have "rows_kept fill (ds ! k) (da_energy (ds ! k)) (da_y_pixel d)
          (da_values (ds ! k))"
        using assms(2) mem by (intro rows_kept_same) simp
      ultimately show ?thesis using k by simp
    qed
    from c u yp rows show ?thesis by (intro exI [of _ ?c]) simp
  next
    case False
    let ?idx = "sort (remdups (concat (map da_energy ds)))"
    let ?c = "\<lparr>cd_angle = map angle ds, cd_energy = ?idx,
               cd_y_pixel = da_y_pixel d, cd_values = map (reindex fill ?idx) ds\<rparr>"
    have e: "(\<forall>x \<in> set ds'. da_energy x = da_energy d) \<longleftrightarrow> False"
      using False by simp
    have "\<not> (\<forall>x \<in> set ds. \<forall>y \<in> set ds. da_energy x = da_energy y)"
    proof
      assume a: "\<forall>x \<in> set ds. \<forall>y \<in> set ds. da_energy x = da_energy y"
      have "\<forall>x \<in> set ds'. da_energy x = da_energy d"
      proof
        fix x assume "x \<in> set ds'"
        then have "x \<in> set ds" using ds by simp
        from a [rule_format, OF this d] show "da_energy x = da_energy d" .
      qed
      with False show False ..
    qed
    with compatible_energy [OF assms(3)] have dist: "\<forall>x \<in> set ds. distinct (da_energy x)"
      by iprover
    then have nd: "(\<exists>x \<in> set (d # ds'). \<not> distinct (da_energy x)) \<longleftrightarrow> False"
      using ds by simp
    have c: "xr_concat fill ds = Inr ?c"
      unfolding xr_concat_def ds list.case p e nd by (simp only: if_False Let_def)
    have u: "set ?idx = (\<Union>x \<in> set ds. set (da_energy x))"
      by simp
    have rows: "rows_kept fill (ds ! k) ?idx (da_y_pixel d) (map (reindex fill ?idx) ds ! k)"
      if k: "k < length ds" for k
    proof -
      have mem: "ds ! k \<in> set ds" using k by simp
      have "rows_kept fill (ds ! k) ?idx (da_y_pixel (ds ! k)) (reindex fill ?idx (ds ! k))"
      proof (rule rows_kept_reindex)
        show "distinct (da_energy (ds ! k))" using dist mem by simp
        show "length (da_values (ds ! k)) = length (da_energy (ds ! k))"
          using assms(2) mem by simp
        show "set (da_energy (ds ! k)) \<subseteq> set ?idx" using mem u by blast
      qed
      moreover have "da_y_pixel (ds ! k) = da_y_pixel d" using yp mem by simp
      ultimately show ?thesis using k by simp
    qed
    from c u yp rows show ?thesis by (intro exI [of _ ?c]) simp
  qed
qed

lemma xr_concat_compatible_returns:
  assumes "ds \<noteq> []" and "compatible ds"
  shows "\<exists>c. xr_concat fill ds = Inr c"
proof -
  from assms(1) obtain d ds' where ds: "ds = d # ds'" by (cases ds) auto
  have d: "d \<in> set ds" using ds by simp
  have yp: "\<forall>x \<in> set ds. da_y_pixel x = da_y_pixel d"
  proof
    fix x assume "x \<in> set ds"
    then show "da_y_pixel x = da_y_pixel d"
      using d by (rule compatible_y_pixel [OF assms(2)])
  qed
  then have p: "(\<exists>x \<in> set ds'. da_y_pixel x \<noteq> da_y_pixel d) \<longleftrightarrow> False"
    using ds by simp
  show ?thesis
  proof (cases "\<forall>x \<in> set ds'. da_energy x = da_energy d")
    case True
    then show ?thesis by (simp add: xr_concat_def ds p)
  next
    case False
    then have e: "(\<forall>x \<in> set ds'. da_energy x = da_energy d) \<longleftrightarrow> False"
      by simp
    have "\<not> (\<forall>x \<in> set ds. \<forall>y \<in> set ds. da_energy x = da_energy y)"
    proof
      assume a: "\<forall>x \<in> set ds. \<forall>y \<in> set ds. da_energy x = da_energy y"
      have "\<forall>x \<in> set ds'. da_energy x = da_energy d"
      proof
        fix x assume "x \<in> set ds'"
        then have "x \<in> set ds" using ds by simp
        from a [rule_format, OF this d] show "da_energy x = da_energy d" .
      qed
      with False show False ..
    qed
    with compatible_energy [OF assms(2)] have "\<forall>x \<in> set ds. distinct (da_energy x)"
      by iprover
    then have nd: "(\<exists>x \<in> set (d # ds'). \<not> distinct (da_energy x)) \<longleftrightarrow> False"
      using ds by simp
    show ?thesis
      unfolding xr_concat_def ds list.case p e nd by (simp only: if_False Let_def) iprover
  qed
qed

lemma xr_concat_values_length:
  "xr_concat fill ds = Inr c \<Longrightarrow> length (cd_values c) = length ds"
  by (auto simp add: xr_concat_def Let_def split: list.splits if_splits)

subsection \<open>The example files\<close>

lemma example_env_fields:
  "glob (example_env matched) d pat = matched"
  "readlines (example_env matched) = example_files"
  "float (example_env matched) = digit_float"
  "read_csv (example_env matched) = digits_read_csv example_files"
  "nan (example_env matched) = None"
  by (simp_all add: example_env_def)

lemma bad_txt_header:
  "first_marker (example_files ''bad.txt'') 4 \<and>
   read_angle digit_float (example_files ''bad.txt'') 4 = None"
  by code_simp

lemma short_txt_header:
  "first_marker (example_files ''short.txt'') 0 \<and>
   read_angle digit_float (example_files ''short.txt'') 0 = None"
  by code_simp

lemma none_txt_header: "\<not> has_marker (example_files ''none.txt'')"
  by code_simp

lemma bad_txt_lookups:
  "try_float digit_float (example_files ''bad.txt'') (int 4 - 3) = None"
  "try_float digit_float (example_files ''bad.txt'') (int 4 - 4) = None"
  by code_simp+

lemma mixed_example_load:
  "load_ses_spectra (example_env [''s2.txt'', ''bad.txt'', ''none.txt'', ''s1.txt'']) ''dir'' ''*.txt'' =
     ([''bad.txt''],
      Inr \<lparr>kx = [10, 20], energy = [1, 2, 3], y_pixel = 2,
           intensity = [[[Some 5, Some 6], [Some 7, Some 8], [None, None]],
                        [[Some 9, Some 9], [None, None], [Some 4, Some 4]]],
           ky = [- 1, 1]\<rparr>)"
  by code_simp

lemma s1_txt_header:
  "first_marker (example_files ''s1.txt'') 4 \<and>
   read_angle digit_float (example_files ''s1.txt'') 4 = Some 10"
  by code_simp

lemma s1_txt_table:
  "digits_read_csv example_files ''s1.txt'' 5 =
     Inr \<lparr>iloc_first = [1, 2], iloc_rest = [[Some 5, Some 6], [Some 7, Some 8]], n_rest = 2\<rparr>"
  by code_simp

lemma example_slices:
  "slice (example_env [''s2.txt'', ''s1.txt'']) ''s1.txt'' =
     Some \<lparr>angle = 10, da_energy = [1, 2], da_y_pixel = 2,
           da_values = [[Some 5, Some 6], [Some 7, Some 8]]\<rparr>"
  "slice (example_env [''s2.txt'', ''s1.txt'']) ''s2.txt'' =
     Some \<lparr>angle = 20, da_energy = [1, 3], da_y_pixel = 2,
           da_values = [[Some 9, Some 9], [Some 4, Some 4]]\<rparr>"
  by code_simp+

lemma example_sorted: "sort [''s2.txt'', ''s1.txt''] = [''s1.txt'', ''s2.txt'']"
  by code_simp

lemma wide_example_load:
  "load_ses_spectra (example_env [''wide.txt'']) ''dir'' ''*.txt'' =
     ([], Inr \<lparr>kx = [30], energy = [1], y_pixel = 3,
               intensity = [[[Some 1, Some 2, Some 3]]], ky = [- 1, 0, 1]\<rparr>)"
  by code_simp

lemma wrap_txt_header:
  "first_marker (example_files ''wrap.txt'') 0"
  "length (example_files ''wrap.txt'') = 4"
  by code_simp+

lemma wrap_txt_tail:
  "example_files ''wrap.txt'' ! (length (example_files ''wrap.txt'') + 0 - 3) = ln ''1''"
  "digit_float (strip (example_files ''wrap.txt'' !
     (length (example_files ''wrap.txt'') + 0 - 3))) = Some 1"
  by code_simp+



lemma example_compatible:
  "compatible (map (\<lambda>p. the (slice (example_env [''s2.txt'', ''s1.txt'']) p))
     (glob (example_env [''s2.txt'', ''s1.txt'']) ''dir'' ''*.txt''))"
  by code_simp

subsection \<open>The two raised errors\<close>

text \<open>
  C4: whenever the glob matches nothing, \<^verbatim>\<open>load_ses_spectra\<close> raises
  \<^verbatim>\<open>FileNotFoundError\<close>; it prints nothing and returns no array.
\<close>

theorem empty_glob_raises:
  "glob ev directory_path file_pattern = [] \<Longrightarrow>
   load_ses_spectra ev directory_path file_pattern = ([], Inl FileNotFoundError)"
  by (simp add: load_ses_spectra_def)

theorem empty_glob_raises_witness:
  "glob (example_env []) ''dir'' ''S313_MgB2_*.txt'' = [] \<and>
   load_ses_spectra (example_env []) ''dir'' ''S313_MgB2_*.txt'' = ([], Inl FileNotFoundError)"
  using empty_glob_raises [of "example_env []" "''dir''" "''S313_MgB2_*.txt''"]
  by (simp add: example_env_fields)

text \<open>
  C5: when the glob matches at least one file and every matched file fails to yield a
  dataset, because it has no marker line or because its angle cannot be read at either
  place, \<^verbatim>\<open>load_ses_spectra\<close> raises the \<^verbatim>\<open>ValueError\<close> "No valid datasets were
  created" and returns no array.
\<close>

theorem all_files_fail_raises:
  assumes "glob ev directory_path file_pattern \<noteq> []"
    and "\<forall>p \<in> set (glob ev directory_path file_pattern).
           \<not> has_marker (readlines ev p) \<or>
           (\<exists>i. first_marker (readlines ev p) i \<and>
                read_angle (float ev) (readlines ev p) i = None)"
  shows "snd (load_ses_spectra ev directory_path file_pattern) = Inl no_valid_datasets"
proof -
  have "\<forall>p \<in> set (sort (glob ev directory_path file_pattern)). skipped ev p"
    using assms(2) by (simp add: skipped_cases)
  then have "snd (process_files ev (sort (glob ev directory_path file_pattern)) [] []) = Inr []"
    by (rule process_files_all_skipped)
  then show ?thesis
    by (simp add: load_ses_spectra_nonempty [OF assms(1)] combine_datasets_def)
qed

lemma all_fail_example_warnings:
  "fst (load_ses_spectra (example_env [''none.txt'', ''bad.txt'', ''short.txt''])
     ''dir'' ''*.txt'') = [''bad.txt'', ''short.txt'']"
  by code_simp

theorem all_files_fail_raises_witness:
  "load_ses_spectra (example_env [''none.txt'', ''bad.txt'', ''short.txt'']) ''dir'' ''*.txt'' =
     ([''bad.txt'', ''short.txt''],
      Inl (ValueError ''No valid datasets were created. Check file format.''))"
proof -
  let ?ev = "example_env [''none.txt'', ''bad.txt'', ''short.txt'']"
  have g: "glob ?ev ''dir'' ''*.txt'' = [''none.txt'', ''bad.txt'', ''short.txt'']"
    by (simp add: example_env_fields)
  have r: "readlines ?ev = example_files" and f: "float ?ev = digit_float"
    by (simp_all add: example_env_fields)
  have b: "\<exists>i. first_marker (example_files ''bad.txt'') i \<and>
                read_angle digit_float (example_files ''bad.txt'') i = None"
    using bad_txt_header by (rule exI)
  have s: "\<exists>i. first_marker (example_files ''short.txt'') i \<and>
                read_angle digit_float (example_files ''short.txt'') i = None"
    using short_txt_header by (rule exI)
  have "snd (load_ses_spectra ?ev ''dir'' ''*.txt'') = Inl no_valid_datasets"
  proof (rule all_files_fail_raises)
    show "glob ?ev ''dir'' ''*.txt'' \<noteq> []" by (simp only: g) simp
    show "\<forall>p \<in> set (glob ?ev ''dir'' ''*.txt'').
           \<not> has_marker (readlines ?ev p) \<or>
           (\<exists>i. first_marker (readlines ?ev p) i \<and>
                read_angle (float ?ev) (readlines ?ev p) i = None)"
      unfolding g r f using none_txt_header b s by (simp only: list.set ball_simps simp_thms)
  qed
  with all_fail_example_warnings show ?thesis
    by (simp only: no_valid_datasets_def prod_eq_iff fst_conv snd_conv simp_thms)
qed

subsection \<open>Files that are skipped\<close>

text \<open>
  C3: a file with a marker line whose angle can be read neither 3 nor 4 lines before the
  marker is left out and warned about, and the load goes on. When the loop reaches the
  file it prints the warning, appends nothing and continues with the remaining files.
  With another file in the directory, the load raises or returns exactly what it does
  without the file, and prints the same warnings about the other files. When the load
  returns an array, the warning about the file was printed.
\<close>

theorem unparseable_angle_file_skipped:
  assumes "first_marker (readlines ev p) i"
    and "try_float (float ev) (readlines ev p) (int i - 3) = None"
    and "try_float (float ev) (readlines ev p) (int i - 4) = None"
  shows "process_files ev (p # file_list) datasets out =
           process_files ev file_list datasets (out @ [p])
    \<and> ((\<exists>q \<in> set (glob ev directory_path file_pattern). q \<noteq> p) \<longrightarrow>
         snd (load_ses_spectra ev directory_path file_pattern) =
           snd (load_ses_spectra (without p ev) directory_path file_pattern) \<and>
         filter (\<lambda>q. q \<noteq> p) (fst (load_ses_spectra ev directory_path file_pattern)) =
           fst (load_ses_spectra (without p ev) directory_path file_pattern))
    \<and> (p \<in> set (glob ev directory_path file_pattern) \<and>
        (\<exists>r. snd (load_ses_spectra ev directory_path file_pattern) = Inr r) \<longrightarrow>
         p \<in> set (fst (load_ses_spectra ev directory_path file_pattern)))"
proof (intro conjI impI)
  let ?h = "parse_header (float ev) (readlines ev p)"
  have ra: "read_angle (float ev) (readlines ev p) i = None"
    using assms(2,3) by (simp add: read_angle_def)
  have h: "?h = \<lparr>data_start_line = Some (i + 1), angle_value = None, warned = True\<rparr>"
    using parse_header_first_marker [OF assms(1), of "float ev"] ra by simp
  have sk: "skipped ev p" by (simp add: skipped_def h)
  have w: "warned ?h" by (simp add: h)
  show "process_files ev (p # file_list) datasets out =
           process_files ev file_list datasets (out @ [p])"
    using process_files_skipped [OF sk, of file_list datasets out] w by (simp only: if_True)
  {
    assume ex: "\<exists>q \<in> set (glob ev directory_path file_pattern). q \<noteq> p"
    show "snd (load_ses_spectra ev directory_path file_pattern) =
           snd (load_ses_spectra (without p ev) directory_path file_pattern)"
      by (simp add: load_ses_spectra_without [OF sk ex])
    show "filter (\<lambda>q. q \<noteq> p) (fst (load_ses_spectra ev directory_path file_pattern)) =
           fst (load_ses_spectra (without p ev) directory_path file_pattern)"
      by (simp add: load_ses_spectra_without [OF sk ex])
  }
  {
    assume a: "p \<in> set (glob ev directory_path file_pattern) \<and>
        (\<exists>r. snd (load_ses_spectra ev directory_path file_pattern) = Inr r)"
    let ?fl = "sort (glob ev directory_path file_pattern)"
    from a have ne: "glob ev directory_path file_pattern \<noteq> []" by auto
    from a obtain r where r: "snd (load_ses_spectra ev directory_path file_pattern) = Inr r"
      by blast
    then obtain ds where ds: "snd (process_files ev ?fl [] []) = Inr ds"
      by (cases "snd (process_files ev ?fl [] [])")
         (simp_all add: load_ses_spectra_nonempty [OF ne])
    from a have "p \<in> set ?fl" by simp
    with ds have "p \<in> set (fst (process_files ev ?fl [] []))"
      using w by (rule process_files_warned_reached)
    then show "p \<in> set (fst (load_ses_spectra ev directory_path file_pattern))"
      by (simp add: load_ses_spectra_nonempty [OF ne])
  }
qed

theorem unparseable_angle_file_skipped_witness:
  "first_marker (example_files ''bad.txt'') 4 \<and>
   try_float digit_float (example_files ''bad.txt'') (int 4 - 3) = None \<and>
   try_float digit_float (example_files ''bad.txt'') (int 4 - 4) = None \<and>
   snd (load_ses_spectra (example_env [''s2.txt'', ''bad.txt'', ''none.txt'', ''s1.txt''])
          ''dir'' ''*.txt'') =
   snd (load_ses_spectra
          (without ''bad.txt'' (example_env [''s2.txt'', ''bad.txt'', ''none.txt'', ''s1.txt'']))
          ''dir'' ''*.txt'') \<and>
   ''bad.txt'' \<in> set (fst (load_ses_spectra
          (example_env [''s2.txt'', ''bad.txt'', ''none.txt'', ''s1.txt'']) ''dir'' ''*.txt''))"
proof -
  let ?ev = "example_env [''s2.txt'', ''bad.txt'', ''none.txt'', ''s1.txt'']"
  have fm: "first_marker (readlines ?ev ''bad.txt'') 4"
    using bad_txt_header by (simp only: example_env_fields)
  have t3: "try_float (float ?ev) (readlines ?ev ''bad.txt'') (int 4 - 3) = None"
    and t4: "try_float (float ?ev) (readlines ?ev ''bad.txt'') (int 4 - 4) = None"
    using bad_txt_lookups by (simp_all only: example_env_fields)
  have ex: "\<exists>q \<in> set (glob ?ev ''dir'' ''*.txt''). q \<noteq> ''bad.txt''"
    by (simp add: example_env_fields)
  have mem: "''bad.txt'' \<in> set (glob ?ev ''dir'' ''*.txt'')"
    by (simp add: example_env_fields)
  have ret: "\<exists>r. snd (load_ses_spectra ?ev ''dir'' ''*.txt'') = Inr r"
    by (simp only: mixed_example_load snd_conv) blast
  from unparseable_angle_file_skipped [OF fm t3 t4, of "[]" "[]" "[]" "''dir''" "''*.txt''"]
    ex mem ret
  have "snd (load_ses_spectra ?ev ''dir'' ''*.txt'') =
      snd (load_ses_spectra (without ''bad.txt'' ?ev) ''dir'' ''*.txt'')"
    and "''bad.txt'' \<in> set (fst (load_ses_spectra ?ev ''dir'' ''*.txt''))"
    by blast+
  with bad_txt_header bad_txt_lookups show ?thesis by blast
qed

text \<open>
  C10: a matched file without any marker line is skipped silently. The loop prints nothing
  for it and appends nothing; no warning about it is ever printed; with another file in
  the directory the load prints, raises or returns exactly what it does without the file;
  and when no matched file has a marker line the load raises the \<^verbatim>\<open>ValueError\<close>
  "No valid datasets were created", having printed nothing.
\<close>

theorem no_marker_file_skipped_silently:
  assumes "\<not> has_marker (readlines ev p)"
  shows "process_files ev (p # file_list) datasets out = process_files ev file_list datasets out
    \<and> p \<notin> set (fst (load_ses_spectra ev directory_path file_pattern))
    \<and> ((\<exists>q \<in> set (glob ev directory_path file_pattern). q \<noteq> p) \<longrightarrow>
         load_ses_spectra ev directory_path file_pattern =
         load_ses_spectra (without p ev) directory_path file_pattern)
    \<and> (glob ev directory_path file_pattern \<noteq> [] \<and>
        (\<forall>q \<in> set (glob ev directory_path file_pattern). \<not> has_marker (readlines ev q)) \<longrightarrow>
         load_ses_spectra ev directory_path file_pattern = ([], Inl no_valid_datasets))"
proof (intro conjI impI)
  let ?h = "parse_header (float ev) (readlines ev p)"
  have h: "?h = \<lparr>data_start_line = None, angle_value = None, warned = False\<rparr>"
    using assms by (rule parse_header_no_marker)
  have sk: "skipped ev p" by (simp add: skipped_def h)
  have nw: "\<not> warned ?h" by (simp add: h)
  show "process_files ev (p # file_list) datasets out = process_files ev file_list datasets out"
    using process_files_skipped [OF sk, of file_list datasets out] nw by (simp only: if_False)
  show notin: "p \<notin> set (fst (load_ses_spectra ev directory_path file_pattern))"
  proof (cases "glob ev directory_path file_pattern = []")
    case True
    then show ?thesis by (simp add: load_ses_spectra_def)
  next
    case False
    have "set (fst (process_files ev (sort (glob ev directory_path file_pattern)) [] [])) \<subseteq>
      set [] \<union> {q \<in> set (sort (glob ev directory_path file_pattern)).
                  warned (parse_header (float ev) (readlines ev q))}"
      by (rule process_files_warnings)
    with nw show ?thesis
      by (auto simp add: load_ses_spectra_nonempty [OF False])
  qed
  {
    assume ex: "\<exists>q \<in> set (glob ev directory_path file_pattern). q \<noteq> p"
    have "filter (\<lambda>q. q \<noteq> p) (fst (load_ses_spectra ev directory_path file_pattern)) =
        fst (load_ses_spectra ev directory_path file_pattern)"
      using notin by (auto simp add: filter_id_conv)
    then show "load_ses_spectra ev directory_path file_pattern =
         load_ses_spectra (without p ev) directory_path file_pattern"
      by (simp add: load_ses_spectra_without [OF sk ex])
  }
  {
    assume a: "glob ev directory_path file_pattern \<noteq> [] \<and>
        (\<forall>q \<in> set (glob ev directory_path file_pattern). \<not> has_marker (readlines ev q))"
    let ?fl = "sort (glob ev directory_path file_pattern)"
    have allsk: "\<forall>q \<in> set ?fl. skipped ev q"
      using a by (simp add: skipped_cases)
    have s: "snd (process_files ev ?fl [] []) = Inr []"
      using allsk by (rule process_files_all_skipped)
    have sub: "set (fst (process_files ev ?fl [] [])) \<subseteq>
      set [] \<union> {q \<in> set ?fl. warned (parse_header (float ev) (readlines ev q))}"
      by (rule process_files_warnings)
    have nwq: "\<not> warned (parse_header (float ev) (readlines ev q))" if "q \<in> set ?fl" for q
      using a that by (simp add: parse_header_no_marker)
    have f: "fst (process_files ev ?fl [] []) = []"
    proof (rule ccontr)
      assume "fst (process_files ev ?fl [] []) \<noteq> []"
      then obtain x where x: "x \<in> set (fst (process_files ev ?fl [] []))"
        by (meson last_in_set)
      with sub have "x \<in> set ?fl" and "warned (parse_header (float ev) (readlines ev x))"
        by auto
      with nwq show False by simp
    qed
    from a have ne: "glob ev directory_path file_pattern \<noteq> []" by simp
    show "load_ses_spectra ev directory_path file_pattern = ([], Inl no_valid_datasets)"
      by (simp add: load_ses_spectra_nonempty [OF ne] s f combine_datasets_def)
  }
qed

theorem no_marker_file_skipped_silently_witness:
  "\<not> has_marker (example_files ''none.txt'') \<and>
   load_ses_spectra (example_env [''s2.txt'', ''bad.txt'', ''none.txt'', ''s1.txt''])
     ''dir'' ''*.txt'' =
   load_ses_spectra
     (without ''none.txt'' (example_env [''s2.txt'', ''bad.txt'', ''none.txt'', ''s1.txt'']))
     ''dir'' ''*.txt'' \<and>
   ''none.txt'' \<notin> set (fst (load_ses_spectra
     (example_env [''s2.txt'', ''bad.txt'', ''none.txt'', ''s1.txt'']) ''dir'' ''*.txt'')) \<and>
   load_ses_spectra (example_env [''none.txt'']) ''dir'' ''*.txt'' =
     ([], Inl (ValueError ''No valid datasets were created. Check file format.''))"
proof -
  let ?ev = "example_env [''s2.txt'', ''bad.txt'', ''none.txt'', ''s1.txt'']"
  let ?ev1 = "example_env [''none.txt'']"
  have nm: "\<not> has_marker (readlines ?ev ''none.txt'')"
    and nm1: "\<not> has_marker (readlines ?ev1 ''none.txt'')"
    using none_txt_header by (simp_all only: example_env_fields simp_thms)
  have ex: "\<exists>q \<in> set (glob ?ev ''dir'' ''*.txt''). q \<noteq> ''none.txt''"
    by (simp add: example_env_fields)
  have all1: "glob ?ev1 ''dir'' ''*.txt'' \<noteq> [] \<and>
      (\<forall>q \<in> set (glob ?ev1 ''dir'' ''*.txt''). \<not> has_marker (readlines ?ev1 q))"
    using none_txt_header by (simp add: example_env_fields)
  from no_marker_file_skipped_silently [OF nm, of "[]" "[]" "[]" "''dir''" "''*.txt''"] ex
  have a: "load_ses_spectra ?ev ''dir'' ''*.txt'' =
      load_ses_spectra (without ''none.txt'' ?ev) ''dir'' ''*.txt''"
    and b: "''none.txt'' \<notin> set (fst (load_ses_spectra ?ev ''dir'' ''*.txt''))"
    by blast+
  from no_marker_file_skipped_silently [OF nm1, of "[]" "[]" "[]" "''dir''" "''*.txt''"] all1
  have c: "load_ses_spectra ?ev1 ''dir'' ''*.txt'' = ([], Inl no_valid_datasets)"
    by blast
  from a b c none_txt_header show ?thesis
    by (simp only: no_valid_datasets_def simp_thms)
qed

subsection \<open>Files that are read\<close>

text \<open>
  C8: for a file whose first marker line is line \<open>i\<close> and whose angle \<open>a\<close> is read, the
  table is read with \<^verbatim>\<open>skiprows = i + 1\<close>, that is from the line immediately after the
  first marker line on. When \<^verbatim>\<open>read_csv\<close> raises, the load ends with that exception;
  otherwise the first column of the table becomes the energy coordinate of the appended
  array and the remaining columns become its values along the pixel dimension.
\<close>

theorem body_read_after_first_marker:
  assumes "first_marker (readlines ev p) i"
    and "read_angle (float ev) (readlines ev p) i = Some a"
  shows "process_files ev (p # file_list) datasets out =
     (case read_csv ev p (i + 1) of
        Inl e \<Rightarrow> (out, Inl e)
      | Inr df \<Rightarrow>
          process_files ev file_list
            (datasets @
              [\<lparr>angle = a, da_energy = iloc_first df, da_y_pixel = n_rest df,
                da_values = iloc_rest df\<rparr>])
            out)"
proof -
  have h: "parse_header (float ev) (readlines ev p) =
      \<lparr>data_start_line = Some (i + 1), angle_value = Some a, warned = False\<rparr>"
    using parse_header_first_marker [OF assms(1), of "float ev"] assms(2) by simp
  show ?thesis
    by (simp add: h mk_data_array_def split: sum.splits)
qed

theorem body_read_after_first_marker_witness:
  "first_marker (example_files ''s1.txt'') 4 \<and>
   read_angle digit_float (example_files ''s1.txt'') 4 = Some 10 \<and>
   process_files (example_env [''s1.txt'']) [''s1.txt''] [] [] =
     ([], Inr [\<lparr>angle = 10, da_energy = [1, 2], da_y_pixel = 2,
                da_values = [[Some 5, Some 6], [Some 7, Some 8]]\<rparr>])"
proof -
  let ?ev = "example_env [''s1.txt'']"
  have fm: "first_marker (readlines ?ev ''s1.txt'') 4"
    and ra: "read_angle (float ?ev) (readlines ?ev ''s1.txt'') 4 = Some 10"
    using s1_txt_header by (simp_all only: example_env_fields simp_thms)
  have "process_files ?ev [''s1.txt''] [] [] =
     ([], Inr [\<lparr>angle = 10, da_energy = [1, 2], da_y_pixel = 2,
                da_values = [[Some 5, Some 6], [Some 7, Some 8]]\<rparr>])"
    unfolding body_read_after_first_marker [OF fm ra, of "[]" "[]" "[]"]
    by (simp add: example_env_fields s1_txt_table)
  with s1_txt_header show ?thesis by simp
qed

text \<open>
  C1, as the code has it: let the glob match N files, at least one, each of which yields
  an array (it has a marker line, an angle that can be read, and a table that
  \<^verbatim>\<open>read_csv\<close> accepts). When the tables have the same number of pixel columns, and
  either all have the same energy column or none repeats an energy, the load returns
  an array with N slices whose \<^verbatim>\<open>kx\<close> dimension has length N and holds the angles of the
  files in the order of the sorted paths; it prints nothing. Otherwise the concatenation
  raises \<^verbatim>\<open>ValueError\<close> and no array is returned. The angles need not be distinct.
\<close>

theorem one_slice_per_well_formed_file:
  assumes "glob ev directory_path file_pattern \<noteq> []"
    and "\<forall>p \<in> set (glob ev directory_path file_pattern). slice ev p \<noteq> None"
  shows "(compatible (map (\<lambda>p. the (slice ev p)) (glob ev directory_path file_pattern)) \<longrightarrow>
           (\<exists>r. load_ses_spectra ev directory_path file_pattern = ([], Inr r) \<and>
                length (kx r) = length (glob ev directory_path file_pattern) \<and>
                length (intensity r) = length (glob ev directory_path file_pattern) \<and>
                kx r = map (\<lambda>p. angle (the (slice ev p)))
                         (sort (glob ev directory_path file_pattern))))
    \<and> (\<not> compatible (map (\<lambda>p. the (slice ev p)) (glob ev directory_path file_pattern)) \<longrightarrow>
           (\<exists>msg. load_ses_spectra ev directory_path file_pattern =
                    ([], Inl (ValueError msg))))"
proof -
  let ?g = "glob ev directory_path file_pattern"
  let ?fl = "sort ?g"
  let ?ds = "map (\<lambda>p. the (slice ev p)) ?fl"
  have ok: "\<forall>p \<in> set ?fl. slice ev p \<noteq> None" using assms(2) by simp
  have pf: "process_files ev ?fl [] [] = ([], Inr ?ds)"
    using process_files_all_ok [OF ok, of "[]" "[]"] by simp
  have ne: "?ds \<noteq> []" using assms(1) by (metis length_sort length_0_conv map_is_Nil_conv)
  have load: "load_ses_spectra ev directory_path file_pattern =
      ([], case xr_concat (nan ev) ?ds of Inl e \<Rightarrow> Inl e | Inr c \<Rightarrow> Inr (assign_ky c))"
    using ne by (simp add: load_ses_spectra_nonempty [OF assms(1)] pf combine_datasets_def)
  have cs: "compatible (map (\<lambda>p. the (slice ev p)) ?g) = compatible ?ds"
    by (rule compatible_set) simp
  show ?thesis
  proof (intro conjI impI)
    assume "compatible (map (\<lambda>p. the (slice ev p)) ?g)"
    then have compat: "compatible ?ds" by (simp only: cs)
    from xr_concat_compatible_returns [OF ne compat, of "nan ev"]
    obtain c where c: "xr_concat (nan ev) ?ds = Inr c" ..
    let ?r = "assign_ky c"
    have l: "load_ses_spectra ev directory_path file_pattern = ([], Inr ?r)"
      by (simp add: load c)
    have "kx ?r = cd_angle c" by (simp add: assign_ky_def)
    also have "\<dots> = map angle ?ds" using c by (rule xr_concat_angle)
    finally have kx: "kx ?r = map (\<lambda>p. angle (the (slice ev p))) ?fl"
      by (simp add: comp_def)
    then have n: "length (kx ?r) = length ?g" by simp
    have "intensity ?r = cd_values c" by (simp add: assign_ky_def)
    then have m: "length (intensity ?r) = length ?g"
      using xr_concat_values_length [OF c] by simp
    from l n m kx
    show "\<exists>r. load_ses_spectra ev directory_path file_pattern = ([], Inr r) \<and>
                length (kx r) = length ?g \<and> length (intensity r) = length ?g \<and>
                kx r = map (\<lambda>p. angle (the (slice ev p))) ?fl"
      by (intro exI [of _ ?r] conjI)
  next
    assume "\<not> compatible (map (\<lambda>p. the (slice ev p)) ?g)"
    then have "\<not> compatible ?ds" by (simp only: cs not_False_eq_True)
    then obtain msg where "xr_concat (nan ev) ?ds = Inl (ValueError msg)"
      using xr_concat_not_compatible by iprover
    then have "load_ses_spectra ev directory_path file_pattern = ([], Inl (ValueError msg))"
      by (simp add: load)
    then show "\<exists>msg. load_ses_spectra ev directory_path file_pattern =
                    ([], Inl (ValueError msg))" ..
  qed
qed

theorem one_slice_per_well_formed_file_witness:
  "\<exists>r. load_ses_spectra (example_env [''s2.txt'', ''s1.txt'']) ''dir'' ''*.txt'' = ([], Inr r) \<and>
       length (kx r) = 2 \<and> length (intensity r) = 2 \<and> kx r = [10, 20]"
proof -
  let ?ev = "example_env [''s2.txt'', ''s1.txt'']"
  have g: "glob ?ev ''dir'' ''*.txt'' = [''s2.txt'', ''s1.txt'']"
    by (simp add: example_env_fields)
  have ne: "glob ?ev ''dir'' ''*.txt'' \<noteq> []"
    by (simp add: g)
  have ok: "\<forall>p \<in> set (glob ?ev ''dir'' ''*.txt''). slice ?ev p \<noteq> None"
    by (simp add: g example_slices)
  from one_slice_per_well_formed_file [OF ne ok] example_compatible
  obtain r where r: "load_ses_spectra ?ev ''dir'' ''*.txt'' = ([], Inr r)"
    and n: "length (kx r) = length (glob ?ev ''dir'' ''*.txt'')"
    and m: "length (intensity r) = length (glob ?ev ''dir'' ''*.txt'')"
    and k: "kx r = map (\<lambda>p. angle (the (slice ?ev p))) (sort (glob ?ev ''dir'' ''*.txt''))"
    by iprover
  from n m k have "length (kx r) = 2" and "length (intensity r) = 2" and "kx r = [10, 20]"
    by (simp_all add: g example_sorted example_slices)
  with r show ?thesis by iprover
qed

text \<open>
  C1 as stated promises the array for every directory of well-formed files with distinct
  angles. It fails for \<^verbatim>\<open>s2.txt\<close> (angle 20, two pixel columns) with \<^verbatim>\<open>wide.txt\<close> (angle 30,
  three pixel columns), and for \<^verbatim>\<open>s2.txt\<close> (energies 1, 3) with \<^verbatim>\<open>dup.txt\<close> (angle 40,
  energies 1, 1, 3): each file yields its array, and the load raises \<^verbatim>\<open>ValueError\<close>.
\<close>

theorem well_formed_files_raise_counterexample:
  "slice (example_env [''s2.txt'', ''wide.txt'']) ''s2.txt'' =
     Some \<lparr>angle = 20, da_energy = [1, 3], da_y_pixel = 2,
           da_values = [[Some 9, Some 9], [Some 4, Some 4]]\<rparr> \<and>
   slice (example_env [''s2.txt'', ''wide.txt'']) ''wide.txt'' =
     Some \<lparr>angle = 30, da_energy = [1], da_y_pixel = 3,
           da_values = [[Some 1, Some 2, Some 3]]\<rparr> \<and>
   load_ses_spectra (example_env [''s2.txt'', ''wide.txt'']) ''dir'' ''*.txt'' =
     ([], Inl (ValueError ''conflicting dimension sizes along y_pixel'')) \<and>
   slice (example_env [''s2.txt'', ''dup.txt'']) ''s2.txt'' =
     Some \<lparr>angle = 20, da_energy = [1, 3], da_y_pixel = 2,
           da_values = [[Some 9, Some 9], [Some 4, Some 4]]\<rparr> \<and>
   slice (example_env [''s2.txt'', ''dup.txt'']) ''dup.txt'' =
     Some \<lparr>angle = 40, da_energy = [1, 1, 3], da_y_pixel = 2,
           da_values = [[Some 1, Some 1], [Some 2, Some 2], [Some 3, Some 3]]\<rparr> \<and>
   load_ses_spectra (example_env [''s2.txt'', ''dup.txt'']) ''dir'' ''*.txt'' =
     ([], Inl (ValueError ''cannot reindex along energy: duplicate index values''))"
  by code_simp

subsection \<open>The synthesized coordinate\<close>



subsection \<open>The outer join\<close>

text \<open>
  C7, as the code has it, for arrays that each have as many rows as energies (as every
  table read by \<^verbatim>\<open>read_csv\<close> has). Arrays with differing numbers of pixel columns are
  not padded: the concatenation raises \<^verbatim>\<open>ValueError\<close>. So it does for arrays with the same
  number of pixel columns whose energy columns differ when one of them repeats an energy.
  In every other case the arrays are concatenated with an outer join on the energy
  coordinate: the combined energy coordinate is the union of the files' energies; every
  row of every file is kept, under its energy; a row for an energy that a file does not
  have is filled with NaN; and there is one slice per array.
\<close>

theorem concat_outer_join_on_energy:
  assumes "datasets \<noteq> []"
    and "\<forall>d \<in> set datasets. length (da_values d) = length (da_energy d)"
  shows "((\<exists>x \<in> set datasets. \<exists>y \<in> set datasets. da_y_pixel x \<noteq> da_y_pixel y) \<longrightarrow>
            (\<exists>msg. xr_concat fill datasets = Inl (ValueError msg)))
    \<and> ((\<forall>x \<in> set datasets. \<forall>y \<in> set datasets. da_y_pixel x = da_y_pixel y) \<and>
        (\<exists>x \<in> set datasets. \<exists>y \<in> set datasets. da_energy x \<noteq> da_energy y) \<and>
        (\<exists>x \<in> set datasets. \<not> distinct (da_energy x)) \<longrightarrow>
            (\<exists>msg. xr_concat fill datasets = Inl (ValueError msg)))
    \<and> (compatible datasets \<longrightarrow>
          (\<exists>c. xr_concat fill datasets = Inr c
            \<and> set (cd_energy c) = (\<Union>d \<in> set datasets. set (da_energy d))
            \<and> (\<forall>d \<in> set datasets. da_y_pixel d = cd_y_pixel c)
            \<and> length (cd_values c) = length datasets
            \<and> (\<forall>k < length datasets.
                  length (cd_values c ! k) = length (cd_energy c)
                \<and> (\<forall>n < length (da_energy (datasets ! k)).
                      \<exists>j < length (cd_energy c).
                        cd_energy c ! j = da_energy (datasets ! k) ! n \<and>
                        cd_values c ! k ! j = da_values (datasets ! k) ! n)
                \<and> (\<forall>j < length (cd_energy c).
                      cd_energy c ! j \<notin> set (da_energy (datasets ! k)) \<longrightarrow>
                      cd_values c ! k ! j = replicate (cd_y_pixel c) fill))))"
proof (intro conjI impI)
  assume "\<exists>x \<in> set datasets. \<exists>y \<in> set datasets. da_y_pixel x \<noteq> da_y_pixel y"
  then have "xr_concat fill datasets =
      Inl (ValueError ''conflicting dimension sizes along y_pixel'')"
    by (rule xr_concat_raises_pixel)
  then show "\<exists>msg. xr_concat fill datasets = Inl (ValueError msg)" ..
next
  assume a: "(\<forall>x \<in> set datasets. \<forall>y \<in> set datasets. da_y_pixel x = da_y_pixel y) \<and>
        (\<exists>x \<in> set datasets. \<exists>y \<in> set datasets. da_energy x \<noteq> da_energy y) \<and>
        (\<exists>x \<in> set datasets. \<not> distinct (da_energy x))"
  then have "xr_concat fill datasets =
      Inl (ValueError ''cannot reindex along energy: duplicate index values'')"
    by (elim conjE) (rule xr_concat_raises_duplicate)
  then show "\<exists>msg. xr_concat fill datasets = Inl (ValueError msg)" ..
next
  assume "compatible datasets"
  with assms show "\<exists>c. xr_concat fill datasets = Inr c
            \<and> set (cd_energy c) = (\<Union>d \<in> set datasets. set (da_energy d))
            \<and> (\<forall>d \<in> set datasets. da_y_pixel d = cd_y_pixel c)
            \<and> length (cd_values c) = length datasets
            \<and> (\<forall>k < length datasets.
                  length (cd_values c ! k) = length (cd_energy c)
                \<and> (\<forall>n < length (da_energy (datasets ! k)).
                      \<exists>j < length (cd_energy c).
                        cd_energy c ! j = da_energy (datasets ! k) ! n \<and>
                        cd_values c ! k ! j = da_values (datasets ! k) ! n)
                \<and> (\<forall>j < length (cd_energy c).
                      cd_energy c ! j \<notin> set (da_energy (datasets ! k)) \<longrightarrow>
                      cd_values c ! k ! j = replicate (cd_y_pixel c) fill))"
    by (rule xr_concat_compatible [unfolded rows_kept_def])
qed

theorem concat_outer_join_on_energy_witness:
  "\<exists>c. xr_concat (None :: rat option)
         [\<lparr>angle = 10 :: rat, da_energy = [1, 2 :: rat], da_y_pixel = 2,
           da_values = [[Some 5, Some 6], [Some 7, Some 8]]\<rparr>,
          \<lparr>angle = 20, da_energy = [1, 3], da_y_pixel = 2,
           da_values = [[Some 9, Some 9], [Some 4, Some 4]]\<rparr>] = Inr c \<and>
       set (cd_energy c) = {1, 2, 3} \<and> cd_y_pixel c = 2 \<and> length (cd_values c) = 2"
proof -
  let ?d1 = "\<lparr>angle = 10 :: rat, da_energy = [1, 2 :: rat], da_y_pixel = 2,
           da_values = [[Some 5, Some 6], [Some 7, Some (8 :: rat)]]\<rparr>"
  let ?d2 = "\<lparr>angle = 20 :: rat, da_energy = [1, 3 :: rat], da_y_pixel = 2,
           da_values = [[Some 9, Some 9], [Some 4, Some (4 :: rat)]]\<rparr>"
  have ne: "[?d1, ?d2] \<noteq> []" by simp
  have wf: "\<forall>d \<in> set [?d1, ?d2]. length (da_values d) = length (da_energy d)" by simp
  have compat: "compatible [?d1, ?d2]" by code_simp
  from concat_outer_join_on_energy [OF ne wf, of None] compat obtain c where
    c: "xr_concat None [?d1, ?d2] = Inr c"
    and en: "set (cd_energy c) = (\<Union>d \<in> set [?d1, ?d2]. set (da_energy d))"
    and ym: "\<forall>d \<in> set [?d1, ?d2]. da_y_pixel d = cd_y_pixel c"
    and len: "length (cd_values c) = length [?d1, ?d2]"
    by iprover
  from en have "set (cd_energy c) = {1, 2, 3}" by auto
  moreover from len have "length (cd_values c) = 2" by simp
  moreover from ym have "cd_y_pixel c = 2" by simp
  ultimately show ?thesis using c by iprover
qed

text \<open>
  C7 as stated promises the padded array whenever the row or column counts differ. It
  fails for \<^verbatim>\<open>s1.txt\<close> (two pixel columns) with \<^verbatim>\<open>wide.txt\<close> (three), and for \<^verbatim>\<open>s1.txt\<close> (two
  rows, energies 1, 2) with \<^verbatim>\<open>dup.txt\<close> (three rows, energies 1, 1, 3): the concatenation
  raises \<^verbatim>\<open>ValueError\<close> and no array is returned.
\<close>

theorem no_padding_counterexample:
  "slice (example_env [''s1.txt'', ''wide.txt'']) ''s1.txt'' =
     Some \<lparr>angle = 10, da_energy = [1, 2], da_y_pixel = 2,
           da_values = [[Some 5, Some 6], [Some 7, Some 8]]\<rparr> \<and>
   slice (example_env [''s1.txt'', ''wide.txt'']) ''wide.txt'' =
     Some \<lparr>angle = 30, da_energy = [1], da_y_pixel = 3,
           da_values = [[Some 1, Some 2, Some 3]]\<rparr> \<and>
   load_ses_spectra (example_env [''s1.txt'', ''wide.txt'']) ''dir'' ''*.txt'' =
     ([], Inl (ValueError ''conflicting dimension sizes along y_pixel'')) \<and>
   slice (example_env [''s1.txt'', ''dup.txt'']) ''dup.txt'' =
     Some \<lparr>angle = 40, da_energy = [1, 1, 3], da_y_pixel = 2,
           da_values = [[Some 1, Some 1], [Some 2, Some 2], [Some 3, Some 3]]\<rparr> \<and>
   load_ses_spectra (example_env [''s1.txt'', ''dup.txt'']) ''dir'' ''*.txt'' =
     ([], Inl (ValueError ''cannot reindex along energy: duplicate index values''))"
  by code_simp

subsection \<open>The marker near the top of the file\<close>

text \<open>
  C9, as the code has it: let the first marker line be line \<open>i\<close>. For \<open>i < 3\<close> the index
  \<open>i - 3\<close> is negative and counts from the end of the file: when the file has at least
  \<open>3 - i\<close> lines the lookup raises nothing and reads line \<open>len + i - 3\<close>, and a number on
  that line becomes the angle, silently. When the file is shorter the lookup raises
  \<^verbatim>\<open>IndexError\<close>. The same holds for the fallback with 4 in place of 3.
\<close>

theorem negative_index_reads_from_file_end:
  assumes "first_marker lines i"
  shows "(i < 3 \<and> 3 \<le> length lines + i \<longrightarrow>
            py_getitem lines (int i - 3) = Inr (lines ! (length lines + i - 3)))
    \<and> (i < 3 \<and> length lines + i < 3 \<longrightarrow> py_getitem lines (int i - 3) = Inl IndexError)
    \<and> (i < 4 \<and> 4 \<le> length lines + i \<longrightarrow>
            py_getitem lines (int i - 4) = Inr (lines ! (length lines + i - 4)))
    \<and> (i < 4 \<and> length lines + i < 4 \<longrightarrow> py_getitem lines (int i - 4) = Inl IndexError)
    \<and> (i < 3 \<and> 3 \<le> length lines + i \<and>
         pyfloat (strip (lines ! (length lines + i - 3))) = Some a \<longrightarrow>
            parse_header pyfloat lines =
              \<lparr>data_start_line = Some (i + 1), angle_value = Some a, warned = False\<rparr>)
    \<and> (i < 4 \<and> 4 \<le> length lines + i \<and> try_float pyfloat lines (int i - 3) = None \<and>
         pyfloat (strip (lines ! (length lines + i - 4))) = Some a \<longrightarrow>
            parse_header pyfloat lines =
              \<lparr>data_start_line = Some (i + 1), angle_value = Some a, warned = False\<rparr>)"
proof -
  have g3: "py_getitem lines (int i - 3) = Inr (lines ! (length lines + i - 3))"
    if "i < 3" "3 \<le> length lines + i"
  proof -
    have "nat (int (length lines) + (int i - 3)) = length lines + i - 3"
      using that by simp
    then show ?thesis
      using that by (simp add: py_getitem_negative)
  qed
  have e3: "py_getitem lines (int i - 3) = Inl IndexError"
    if "i < 3" "length lines + i < 3"
    using that by (simp add: py_getitem_negative)
  have g4: "py_getitem lines (int i - 4) = Inr (lines ! (length lines + i - 4))"
    if "i < 4" "4 \<le> length lines + i"
  proof -
    have "nat (int (length lines) + (int i - 4)) = length lines + i - 4"
      using that by simp
    then show ?thesis
      using that by (simp add: py_getitem_negative)
  qed
  have e4: "py_getitem lines (int i - 4) = Inl IndexError"
    if "i < 4" "length lines + i < 4"
    using that by (simp add: py_getitem_negative)
  have h3: "parse_header pyfloat lines =
        \<lparr>data_start_line = Some (i + 1), angle_value = Some a, warned = False\<rparr>"
    if "i < 3" "3 \<le> length lines + i"
       "pyfloat (strip (lines ! (length lines + i - 3))) = Some a"
  proof -
    have "read_angle pyfloat lines i = Some a"
      using g3 [OF that(1,2)] that(3) by (simp add: read_angle_def try_float_def)
    then show ?thesis by (simp add: parse_header_first_marker [OF assms])
  qed
  have h4: "parse_header pyfloat lines =
        \<lparr>data_start_line = Some (i + 1), angle_value = Some a, warned = False\<rparr>"
    if "i < 4" "4 \<le> length lines + i" "try_float pyfloat lines (int i - 3) = None"
       "pyfloat (strip (lines ! (length lines + i - 4))) = Some a"
  proof -
    have "read_angle pyfloat lines i = Some a"
      using g4 [OF that(1,2)] that(3,4) by (simp add: read_angle_def try_float_def)
    then show ?thesis by (simp add: parse_header_first_marker [OF assms])
  qed
  from g3 e3 g4 e4 h3 h4 show ?thesis by (intro conjI impI) simp_all
qed

theorem negative_index_reads_from_file_end_witness:
  "first_marker (example_files ''wrap.txt'') 0 \<and>
   py_getitem (example_files ''wrap.txt'') (int 0 - 3) = Inr (ln ''1'') \<and>
   parse_header digit_float (example_files ''wrap.txt'') =
     \<lparr>data_start_line = Some 1, angle_value = Some 1, warned = False\<rparr>"
proof -
  let ?lines = "example_files ''wrap.txt''"
  note t = negative_index_reads_from_file_end [OF wrap_txt_header(1), of digit_float 1]
  have c: "(0 :: nat) < 3 \<and> 3 \<le> length ?lines + 0"
    by (simp add: wrap_txt_header(2))
  have f: "digit_float (strip (?lines ! (length ?lines + 0 - 3))) = Some 1"
    by (rule wrap_txt_tail(2))
  from t c have "py_getitem ?lines (int 0 - 3) = Inr (?lines ! (length ?lines + 0 - 3))"
    by iprover
  then have g: "py_getitem ?lines (int 0 - 3) = Inr (ln ''1'')"
    by (simp only: wrap_txt_tail(1))
  from t c f have "parse_header digit_float ?lines =
     \<lparr>data_start_line = Some (0 + 1), angle_value = Some 1, warned = False\<rparr>"
    by iprover
  then have h: "parse_header digit_float ?lines =
     \<lparr>data_start_line = Some 1, angle_value = Some 1, warned = False\<rparr>"
    by simp
  from wrap_txt_header(1) g h show ?thesis by iprover
qed

text \<open>
  C9 as stated says that such a file never takes the \<^verbatim>\<open>IndexError\<close> path. It does when it
  is short: \<^verbatim>\<open>short.txt\<close> is the marker line alone, both lookups raise \<^verbatim>\<open>IndexError\<close>, and
  the file is skipped with a warning.
\<close>

theorem short_file_index_error_counterexample:
  "first_marker (example_files ''short.txt'') 0 \<and>
   py_getitem (example_files ''short.txt'') (int 0 - 3) = Inl IndexError \<and>
   py_getitem (example_files ''short.txt'') (int 0 - 4) = Inl IndexError \<and>
   parse_header digit_float (example_files ''short.txt'') =
     \<lparr>data_start_line = Some 1, angle_value = None, warned = True\<rparr> \<and>
   load_ses_spectra (example_env [''short.txt'', ''s1.txt'']) ''dir'' ''*.txt'' =
     ([''short.txt''],
      Inr \<lparr>kx = [10], energy = [1, 2], y_pixel = 2,
           intensity = [[[Some 5, Some 6], [Some 7, Some 8]]], ky = [- 1, 1]\<rparr>)"
  by code_simp

text \<open>
  C2 says that the angle of a processed file is the number on the line 3 (or 4) lines
  before the marker, and that the file is skipped otherwise. In \<^verbatim>\<open>wrap.txt\<close> the marker
  is the first line, so no such line exists; the load nevertheless returns a slice for
  the file, with the angle 1 read from the line after the marker, and prints no warning.
\<close>

theorem angle_parsed_after_marker:
  "first_marker (example_files ''wrap.txt'') 0 \<and>
   example_files ''wrap.txt'' = [ln ''[Data]'', ln ''1'', ln ''2'', ln ''3''] \<and>
   load_ses_spectra (example_env [''wrap.txt'']) ''dir'' ''*.txt'' =
     ([], Inr \<lparr>kx = [1], energy = [1, 2, 3], y_pixel = 0,
               intensity = [[[], [], []]], ky = []\<rparr>)"
  by code_simp

end
